theory Spec2Isabelle
  imports Complex_Main
begin

section \<open>JavaScript numbers\<close>

text \<open>
  A JavaScript number is a double: a real number, \<open>NaN\<close> or an infinity. The position and
  the speed of the playback engine are such numbers, because \<open>goToStep\<close> and \<open>setSpeed\<close>
  store what \<open>Math.max\<close> and \<open>Math.min\<close> return for whatever number they are given, and
  \<open>Math.max\<close> and \<open>Math.min\<close> return \<open>NaN\<close> when an argument is \<open>NaN\<close>. A division by zero
  does not raise either: it yields \<open>NaN\<close> (for \<open>0 / 0\<close>) or an infinity. Signed zeros are
  not distinguished.
\<close>

datatype js_number = Num real | NaN | PosInfinity | NegInfinity

text \<open>\<open>a < b\<close> and \<open>a <= b\<close>; \<open>a > b\<close> is \<open>b < a\<close> and \<open>a >= b\<close> is \<open>b <= a\<close>. Every
  comparison with \<open>NaN\<close> is false.\<close>

fun js_lt :: "js_number \<Rightarrow> js_number \<Rightarrow> bool" where
  "js_lt (Num a) (Num b) = (a < b)"
| "js_lt (Num a) PosInfinity = True"
| "js_lt NegInfinity (Num b) = True"
| "js_lt NegInfinity PosInfinity = True"
| "js_lt _ _ = False"

fun js_le :: "js_number \<Rightarrow> js_number \<Rightarrow> bool" where
  "js_le (Num a) (Num b) = (a \<le> b)"
| "js_le (Num a) PosInfinity = True"
| "js_le NegInfinity (Num b) = True"
| "js_le NegInfinity PosInfinity = True"
| "js_le NegInfinity NegInfinity = True"
| "js_le PosInfinity PosInfinity = True"
| "js_le _ _ = False"

text \<open>\<open>Math.max(a, b)\<close> and \<open>Math.min(a, b)\<close>\<close>

definition js_max :: "js_number \<Rightarrow> js_number \<Rightarrow> js_number" where
  "js_max a b = (if a = NaN \<or> b = NaN then NaN else if js_lt a b then b else a)"

definition js_min :: "js_number \<Rightarrow> js_number \<Rightarrow> js_number" where
  "js_min a b = (if a = NaN \<or> b = NaN then NaN else if js_lt b a then b else a)"

text \<open>
  \<open>a + c\<close> for a finite \<open>c\<close>: the increment and the decrement of the position. The sum is
  the exact one, which is the sum of the doubles whenever \<open>a\<close> is a whole number below
  \<open>2 ^ 53\<close>.
\<close>

fun js_add :: "js_number \<Rightarrow> real \<Rightarrow> js_number" where
  "js_add (Num a) c = Num (a + c)"
| "js_add NaN c = NaN"
| "js_add PosInfinity c = PosInfinity"
| "js_add NegInfinity c = NegInfinity"

text \<open>
  \<open>a / b\<close> and \<open>a * c\<close> for finite \<open>b\<close> and \<open>c\<close>, as the progress shown to the subscriber
  needs them; the quotient and the product of two finite numbers are the exact ones.
\<close>

fun js_div :: "js_number \<Rightarrow> real \<Rightarrow> js_number" where
  "js_div (Num a) b =
     (if b = 0 then (if a = 0 then NaN else if 0 < a then PosInfinity else NegInfinity)
      else Num (a / b))"
| "js_div NaN b = NaN"
| "js_div PosInfinity b = (if b < 0 then NegInfinity else PosInfinity)"
| "js_div NegInfinity b = (if b < 0 then PosInfinity else NegInfinity)"

fun js_mul :: "js_number \<Rightarrow> real \<Rightarrow> js_number" where
  "js_mul (Num a) c = Num (a * c)"
| "js_mul NaN c = NaN"
| "js_mul PosInfinity c = (if 0 < c then PosInfinity else if c < 0 then NegInfinity else NaN)"
| "js_mul NegInfinity c = (if 0 < c then NegInfinity else if c < 0 then PosInfinity else NaN)"

text \<open>
  The test that decides whether the engine advances compares a difference of two clock
  readings with the quotient \<open>stepDuration / speed\<close>. Both are computed on doubles: the
  exact result, rounded. The rounding is a parameter \<open>rnd\<close> of the model, from the exact
  real result to the double the host returns for it. Nothing is assumed of \<open>rnd\<close>, so what
  is proved for every \<open>rnd\<close> holds for the rounding the host performs. Where a closed
  example needs a rounding, \<open>Num\<close> (no rounding) is used on numbers whose difference and
  quotient are doubles themselves.
\<close>

type_synonym rounding = "real \<Rightarrow> js_number"

text \<open>\<open>a / b\<close> for a finite \<open>a\<close>, rounded.\<close>

fun js_quot :: "rounding \<Rightarrow> real \<Rightarrow> js_number \<Rightarrow> js_number" where
  "js_quot rnd a (Num b) =
     (if b = 0 then (if a = 0 then NaN else if 0 < a then PosInfinity else NegInfinity)
      else rnd (a / b))"
| "js_quot rnd a NaN = NaN"
| "js_quot rnd a PosInfinity = Num 0"
| "js_quot rnd a NegInfinity = Num 0"

text \<open>
  A number that is a whole number or an infinity, and the whole number a finite one is.
\<close>

definition whole :: "js_number \<Rightarrow> bool" where
  "whole x = (case x of Num r \<Rightarrow> r = of_int \<lfloor>r\<rfloor> | NaN \<Rightarrow> False | _ \<Rightarrow> True)"

section \<open>The playback engine: \<open>AnimationController\<close>\<close>

text \<open>
  What a subscriber receives. \<open>onStateChange\<close> is handed an object with the six fields of
  \<open>Status\<close>; \<open>onStepChange\<close> is handed the current snapshot (\<open>None\<close> is JavaScript's
  \<open>null\<close>), the index and the total; \<open>onComplete\<close> is handed nothing.
\<close>

datatype status = Status
  (st_isPlaying: bool) (st_isPaused: bool) (st_currentStep: js_number) (st_totalSteps: int)
  (st_speed: js_number) (progress: js_number)

datatype 'a notification =
  StepChanged "'a option" js_number int
| StateChanged status
| Completed

text \<open>
  The fields of the class, in the order of its constructor. A callback field is \<open>True\<close>
  when a function is stored in it and \<open>False\<close> when it is \<open>null\<close>. The last three fields
  are the host environment the methods act on: the frame callbacks that were requested from
  \<open>requestAnimationFrame\<close> and have neither run nor been cancelled, the next handle it
  will return, and the notifications handed to the subscriber so far. A callback is an
  observer: it looks at what it is handed and does not call the controller (the callbacks
  the pages install redraw the canvas and the progress bar; none installs \<open>onComplete\<close>).
\<close>

record 'a controller =
  isPlaying :: bool
  isPaused :: bool
  currentStep :: js_number
  totalSteps :: int
  speed :: js_number
  steps :: "'a list"
  animationFrameId :: "nat option"
  lastFrameTime :: real
  stepDuration :: real
  onStepChange :: bool
  onComplete :: bool
  onStateChange :: bool
  frameQueue :: "nat list"
  nextHandle :: nat
  delivered :: "'a notification list"

definition new_controller :: "'a controller" where
  "new_controller =
     \<lparr> isPlaying = False, isPaused = False, currentStep = Num 0, totalSteps = 0,
       speed = Num 1,
       steps = [], animationFrameId = None, lastFrameTime = 0, stepDuration = 500,
       onStepChange = False, onComplete = False, onStateChange = False,
       frameQueue = [], nextHandle = 1, delivered = [] \<rparr>"

definition deliver :: "'a notification \<Rightarrow> 'a controller \<Rightarrow> 'a controller" where
  "deliver n s = s\<lparr>delivered := delivered s @ [n]\<rparr>"

text \<open>\<open>requestAnimationFrame\<close> returns a fresh non-zero handle and queues the callback.\<close>

definition requestAnimationFrame :: "'a controller \<Rightarrow> nat \<times> 'a controller" where
  "requestAnimationFrame s =
     (nextHandle s, s\<lparr>frameQueue := frameQueue s @ [nextHandle s], nextHandle := nextHandle s + 1\<rparr>)"

definition cancelAnimationFrame :: "nat \<Rightarrow> 'a controller \<Rightarrow> 'a controller" where
  "cancelAnimationFrame h s = s\<lparr>frameQueue := removeAll h (frameQueue s)\<rparr>"

text \<open>
  \<open>this.steps[this.currentStep] || null\<close>: a position that is not an index of the array
  (a fraction, \<open>NaN\<close>, an infinity, a number outside the array) reads \<open>undefined\<close>.
\<close>

definition getCurrentState :: "'a controller \<Rightarrow> 'a option" where
  "getCurrentState s =
     (case currentStep s of
        Num r \<Rightarrow>
          if r = of_int \<lfloor>r\<rfloor> \<and> 0 \<le> r \<and> \<lfloor>r\<rfloor> < int (length (steps s))
          then Some (steps s ! nat \<lfloor>r\<rfloor>) else None
      | _ \<Rightarrow> None)"

definition notifyStepChange :: "'a controller \<Rightarrow> 'a controller" where
  "notifyStepChange s =
     (if onStepChange s
      then deliver (StepChanged (getCurrentState s) (currentStep s) (totalSteps s)) s
      else s)"

text \<open>The \<open>progress\<close> expression of \<open>notifyStateChange\<close>.\<close>

definition progress_of :: "'a controller \<Rightarrow> js_number" where
  "progress_of s =
     (if totalSteps s > 0
      then js_mul (js_div (currentStep s) (real_of_int (totalSteps s - 1))) 100
      else Num 0)"

definition notifyStateChange :: "'a controller \<Rightarrow> 'a controller" where
  "notifyStateChange s =
     (if onStateChange s
      then deliver (StateChanged (Status (isPlaying s) (isPaused s) (currentStep s)
                      (totalSteps s) (speed s) (progress_of s))) s
      else s)"

definition setSteps :: "'a list \<Rightarrow> 'a controller \<Rightarrow> 'a controller" where
  "setSteps xs s =
     notifyStateChange
       (s\<lparr>steps := xs, totalSteps := int (length xs), currentStep := Num 0\<rparr>)"

definition setSpeed :: "js_number \<Rightarrow> 'a controller \<Rightarrow> 'a controller" where
  "setSpeed x s = notifyStateChange (s\<lparr>speed := js_max (Num 0.25) (js_min (Num 4) x)\<rparr>)"

definition getEffectiveDuration :: "rounding \<Rightarrow> 'a controller \<Rightarrow> js_number" where
  "getEffectiveDuration rnd s = js_quot rnd (stepDuration s) (speed s)"

definition reset :: "'a controller \<Rightarrow> 'a controller" where
  "reset s = notifyStateChange (notifyStepChange (s\<lparr>currentStep := Num 0\<rparr>))"

text \<open>\<open>if (this.animationFrameId)\<close> is false for \<open>null\<close> and for the number 0.\<close>

definition pause :: "'a controller \<Rightarrow> 'a controller" where
  "pause s =
     (let s1 = s\<lparr>isPlaying := False, isPaused := True\<rparr>;
          s2 = (case animationFrameId s1 of
                  None \<Rightarrow> s1
                | Some h \<Rightarrow>
                    if h \<noteq> 0 then (cancelAnimationFrame h s1)\<lparr>animationFrameId := None\<rparr>
                    else s1)
      in notifyStateChange s2)"

text \<open>
  The last line of \<open>animate\<close>: request the next frame and store its handle.
\<close>

definition schedule :: "'a controller \<Rightarrow> 'a controller" where
  "schedule s = (case requestAnimationFrame s of (h, s') \<Rightarrow> s'\<lparr>animationFrameId := Some h\<rparr>)"

text \<open>
  \<open>animate\<close> reads the clock once; \<open>now\<close> is that reading. The test
  \<open>deltaTime >= this.getEffectiveDuration()\<close> is \<open>js_le\<close> with the duration on the left.
\<close>

definition animate :: "rounding \<Rightarrow> real \<Rightarrow> 'a controller \<Rightarrow> 'a controller" where
  "animate rnd now s =
     (if \<not> isPlaying s then s
      else
        let deltaTime = rnd (now - lastFrameTime s) in
        if js_le (getEffectiveDuration rnd s) deltaTime then
          let s1 = s\<lparr>lastFrameTime := now\<rparr> in
          if js_lt (currentStep s1) (Num (of_int (totalSteps s1 - 1)))
          then schedule (notifyStepChange (s1\<lparr>currentStep := js_add (currentStep s1) 1\<rparr>))
          else
            let s2 = pause s1 in
            if onComplete s2 then deliver Completed s2 else s2
        else schedule s)"

text \<open>
  \<open>play\<close> reads the clock itself (\<open>t0\<close>, stored in \<open>lastFrameTime\<close>) and then calls
  \<open>animate\<close>, which reads it again (\<open>t1\<close>). The test \<open>this.currentStep >= this.totalSteps - 1\<close>
  is \<open>js_le\<close> with the position on the right.
\<close>

definition play :: "rounding \<Rightarrow> real \<Rightarrow> real \<Rightarrow> 'a controller \<Rightarrow> 'a controller" where
  "play rnd t0 t1 s =
     (let s1 = (if js_le (Num (of_int (totalSteps s - 1))) (currentStep s) then reset s else s);
          s2 = s1\<lparr>isPlaying := True, isPaused := False, lastFrameTime := t0\<rparr>
      in notifyStateChange (animate rnd t1 s2))"

definition toggle :: "rounding \<Rightarrow> real \<Rightarrow> real \<Rightarrow> 'a controller \<Rightarrow> 'a controller" where
  "toggle rnd t0 t1 s = (if isPlaying s then pause s else play rnd t0 t1 s)"

definition stop :: "'a controller \<Rightarrow> 'a controller" where
  "stop s = notifyStateChange (notifyStepChange ((pause s)\<lparr>currentStep := Num 0\<rparr>))"

text \<open>\<open>Math.max(0, Math.min(step, this.totalSteps - 1))\<close>, for whatever number \<open>step\<close> is.\<close>

definition goToStep :: "js_number \<Rightarrow> 'a controller \<Rightarrow> 'a controller" where
  "goToStep step s =
     notifyStateChange (notifyStepChange
       (s\<lparr>currentStep := js_max (Num 0) (js_min step (Num (of_int (totalSteps s - 1))))\<rparr>))"

definition stepForward :: "'a controller \<Rightarrow> 'a controller" where
  "stepForward s =
     (if js_lt (currentStep s) (Num (of_int (totalSteps s - 1)))
      then notifyStateChange (notifyStepChange (s\<lparr>currentStep := js_add (currentStep s) 1\<rparr>))
      else s)"

definition stepBackward :: "'a controller \<Rightarrow> 'a controller" where
  "stepBackward s =
     (if js_lt (Num 0) (currentStep s)
      then notifyStateChange
             (notifyStepChange (s\<lparr>currentStep := js_add (currentStep s) (- 1)\<rparr>))
      else s)"

text \<open>
  The browser runs a queued frame callback once: the callback \<open>() => this.animate()\<close>
  registered under handle \<open>h\<close> runs at clock reading \<open>now\<close>. A handle that is not queued
  (never requested, already run, or cancelled) runs nothing.
\<close>

definition frame :: "rounding \<Rightarrow> nat \<Rightarrow> real \<Rightarrow> 'a controller \<Rightarrow> 'a controller" where
  "frame rnd h now s =
     (if h \<in> set (frameQueue s)
      then animate rnd now (s\<lparr>frameQueue := removeAll h (frameQueue s)\<rparr>)
      else s)"

text \<open>
  Everything that can happen to a controller between two loads: a call of one of its
  methods by the page, or a frame callback run by the browser. (\<open>destroy\<close>, which ends the
  life of a controller, is not among them.)
\<close>

datatype call =
  StepForward | StepBackward | GoToStep js_number | Play real real | Pause | Toggle real real
| SetSpeed js_number | Reset | Stop | Frame nat real

fun apply_call :: "rounding \<Rightarrow> call \<Rightarrow> 'a controller \<Rightarrow> 'a controller" where
  "apply_call rnd StepForward s = stepForward s"
| "apply_call rnd StepBackward s = stepBackward s"
| "apply_call rnd (GoToStep i) s = goToStep i s"
| "apply_call rnd (Play t0 t1) s = play rnd t0 t1 s"
| "apply_call rnd Pause s = pause s"
| "apply_call rnd (Toggle t0 t1) s = toggle rnd t0 t1 s"
| "apply_call rnd (SetSpeed x) s = setSpeed x s"
| "apply_call rnd Reset s = reset s"
| "apply_call rnd Stop s = stop s"
| "apply_call rnd (Frame h now) s = frame rnd h now s"

fun run :: "rounding \<Rightarrow> call list \<Rightarrow> 'a controller \<Rightarrow> 'a controller" where
  "run rnd [] s = s"
| "run rnd (c # cs) s = run rnd cs (apply_call rnd c s)"

text \<open>A call whose argument, if it is a \<open>goToStep\<close>, is a whole number or an infinity.\<close>

fun whole_call :: "call \<Rightarrow> bool" where
  "whole_call (GoToStep i) = whole i"
| "whole_call _ = True"

text \<open>
  The position invariant: the position is a whole number, a valid index of the loaded
  sequence, and 0 when the sequence is empty. The weaker invariant of a controller that
  holds at most one snapshot: the position is 0 or \<open>NaN\<close>.
\<close>

definition in_range :: "'a controller \<Rightarrow> bool" where
  "in_range s =
     (\<exists>k. currentStep s = Num (of_int k) \<and> 0 \<le> k \<and> k \<le> max 0 (totalSteps s - 1))"

definition at_start :: "'a controller \<Rightarrow> bool" where
  "at_start s = (totalSteps s \<le> 1 \<and> (currentStep s = Num 0 \<or> currentStep s = NaN))"

text \<open>
  Two predicates for the single-snapshot case: a list of notifications in which every
  status carries \<open>NaN\<close> as its progress, and a later state of a controller that holds one
  snapshot at position 0 or \<open>NaN\<close> and has handed out only such notifications since.
\<close>

definition nan_only :: "'a notification list \<Rightarrow> bool" where
  "nan_only new = (\<forall>st. StateChanged st \<in> set new \<longrightarrow> progress st = NaN)"

definition single_ok :: "'a controller \<Rightarrow> 'a controller \<Rightarrow> bool" where
  "single_ok s s' =
     (totalSteps s' = 1 \<and> (currentStep s' = Num 0 \<or> currentStep s' = NaN)
      \<and> (\<exists>new. delivered s' = delivered s @ new \<and> nan_only new))"

section \<open>Text in snapshot descriptions\<close>

text \<open>
  A template literal \<open>${n}\<close> prints a number in decimal. \<open>show_nat\<close> and \<open>show_int\<close> do that
  for the integers the producers print.
\<close>

definition digit_char :: "nat \<Rightarrow> char" where
  "digit_char d = ''0123456789'' ! d"

function show_nat :: "nat \<Rightarrow> string" where
  "show_nat n = (if n < 10 then [digit_char n] else show_nat (n div 10) @ [digit_char (n mod 10)])"
  by pat_completeness auto
termination
  by (relation "measure id") auto

declare show_nat.simps [simp del]

definition show_int :: "int \<Rightarrow> string" where
  "show_int i = (if i < 0 then ''-'' @ show_nat (nat (- i)) else show_nat (nat i))"

text \<open>\<open>Array.prototype.join\<close> on already printed elements.\<close>

fun join :: "string \<Rightarrow> string list \<Rightarrow> string" where
  "join sep [] = []"
| "join sep [x] = x"
| "join sep (x # y # ys) = x @ sep @ join sep (y # ys)"

section \<open>Arrays and strings read by index\<close>

text \<open>
  \<open>xs[i]\<close> on an array or a string: \<open>None\<close> is JavaScript's \<open>undefined\<close>, which is what an
  index outside the range reads. \<open>===\<close> on two such reads is equality of the options. A
  string is the list of its code units.
\<close>

definition js_index :: "'a list \<Rightarrow> nat \<Rightarrow> 'a option" where
  "js_index xs i = (if i < length xs then Some (xs ! i) else None)"

text \<open>
  \<open>xs[i] = v\<close> on an array: an index inside the array overwrites, the index \<open>length\<close>
  appends. A larger index would leave holes in the array; the model has no value for such
  an array and answers \<open>None\<close>.
\<close>

definition js_store :: "'a list \<Rightarrow> nat \<Rightarrow> 'a \<Rightarrow> 'a list option" where
  "js_store xs i v =
     (if i < length xs then Some (xs[i := v])
      else if i = length xs then Some (xs @ [v])
      else None)"

text \<open>A character inside a template literal; \<open>undefined\<close> prints as the word.\<close>

definition show_char :: "char option \<Rightarrow> string" where
  "show_char c = (case c of None \<Rightarrow> ''undefined'' | Some x \<Rightarrow> [x])"

section \<open>KMP string matching: \<open>KMPMatcher\<close>\<close>

text \<open>
  The loop of \<open>buildLPS\<close>, with its three variables. The loop may not return: when
  \<open>lps[len - 1]\<close> reads \<open>undefined\<close>, \<open>len\<close> is \<open>undefined\<close> from then on, no comparison with
  it succeeds and \<open>i\<close> never moves again. \<open>None\<close> is that outcome (and the outcome of a
  store that would leave a hole).
\<close>

partial_function (option) buildLPS_loop ::
  "string \<Rightarrow> nat list \<Rightarrow> nat \<Rightarrow> nat \<Rightarrow> nat list option" where
  "buildLPS_loop pattern lps len i =
     (if i < length pattern then
        (if js_index pattern i = js_index pattern len then
           (case js_store lps i (len + 1) of
              None \<Rightarrow> None
            | Some lps' \<Rightarrow> buildLPS_loop pattern lps' (len + 1) (i + 1))
         else if len \<noteq> 0 then
           (case js_index lps (len - 1) of
              None \<Rightarrow> None
            | Some len' \<Rightarrow> buildLPS_loop pattern lps len' i)
         else
           (case js_store lps i 0 of
              None \<Rightarrow> None
            | Some lps' \<Rightarrow> buildLPS_loop pattern lps' len (i + 1)))
      else Some lps)"

declare buildLPS_loop.simps [code]

definition buildLPS :: "string \<Rightarrow> nat list option" where
  "buildLPS pattern = buildLPS_loop pattern [0] 0 1"

text \<open>
  A snapshot of \<open>search\<close>. Every snapshot has the first six fields and a description; the
  others are present in some kinds of snapshot only, and \<open>None\<close> or \<open>False\<close> when absent.
  The field names carry the prefix \<open>kmp_\<close>.
\<close>

record kmp_state =
  kmp_text :: string
  kmp_pattern :: string
  kmp_textIndex :: nat
  kmp_patternIndex :: nat
  kmp_lps :: "nat list"
  kmp_matches :: "int list"
  kmp_comparing :: "nat list option"
  kmp_matchFound :: "int option"
  kmp_mismatch :: bool
  kmp_jump :: "nat option"
  kmp_complete :: bool
  kmp_description :: string

text \<open>The six common fields, with every other field absent.\<close>

definition kmp_snapshot ::
  "string \<Rightarrow> string \<Rightarrow> nat \<Rightarrow> nat \<Rightarrow> nat list \<Rightarrow> int list \<Rightarrow> kmp_state" where
  "kmp_snapshot t p i j l ms =
     \<lparr> kmp_text = t, kmp_pattern = p, kmp_textIndex = i, kmp_patternIndex = j,
       kmp_lps = l, kmp_matches = ms, kmp_comparing = None, kmp_matchFound = None,
       kmp_mismatch = False, kmp_jump = None, kmp_complete = False, kmp_description = [] \<rparr>"

text \<open>
  The main loop of \<open>search\<close>: \<open>i\<close> and \<open>j\<close>, the matches found and the snapshots pushed so
  far. As in \<open>buildLPS\<close>, a read of \<open>lps[j - 1]\<close> outside the array leaves \<open>j\<close> undefined,
  after which the loop pushes mismatch snapshots without end; \<open>None\<close> is that outcome.
\<close>

partial_function (option) search_loop ::
  "string \<Rightarrow> string \<Rightarrow> nat list \<Rightarrow> nat \<Rightarrow> nat \<Rightarrow> int list \<Rightarrow> kmp_state list
   \<Rightarrow> (int list \<times> kmp_state list) option" where
  "search_loop t p l i j ms sts =
     (if i < length t then
        (let sts1 = sts @ [(kmp_snapshot t p i j l ms)
               \<lparr> kmp_comparing := Some [i, j],
                 kmp_description := ''Comparing text['' @ show_nat i @ '']=''
                   @ [CHR 0x27] @ show_char (js_index t i) @ [CHR 0x27]
                   @ '' with pattern['' @ show_nat j @ '']=''
                   @ [CHR 0x27] @ show_char (js_index p j) @ [CHR 0x27] \<rparr>]
         in
         if js_index t i = js_index p j then
           (if j + 1 = length p then
              (let ms' = ms @ [int (i + 1) - int (j + 1)];
                   sts2 = sts1 @ [(kmp_snapshot t p (i + 1) (j + 1) l ms')
                     \<lparr> kmp_matchFound := Some (int (i + 1) - int (j + 1)),
                       kmp_comparing := Some [],
                       kmp_description := ''Found match at index ''
                         @ show_int (int (i + 1) - int (j + 1)) @ ''!'' \<rparr>]
               in case js_index l (j + 1 - 1) of
                    None \<Rightarrow> None
                  | Some j' \<Rightarrow> search_loop t p l (i + 1) j' ms' sts2)
            else search_loop t p l (i + 1) (j + 1) ms sts1)
         else if j \<noteq> 0 then
           (case js_index l (j - 1) of
              None \<Rightarrow> None
            | Some j' \<Rightarrow>
                search_loop t p l i j' ms
                  (sts1 @ [(kmp_snapshot t p i j l ms)
                     \<lparr> kmp_mismatch := True, kmp_jump := Some j',
                       kmp_description := ''Mismatch! Using LPS to jump pattern index from ''
                         @ show_nat j @ '' to '' @ show_nat j' \<rparr>]))
         else
           search_loop t p l (i + 1) j ms
             (sts1 @ [(kmp_snapshot t p i j l ms)
                \<lparr> kmp_mismatch := True,
                  kmp_description := ''Mismatch! Moving text index forward'' \<rparr>]))
      else
        Some (ms, sts @ [(kmp_snapshot t p (length t) 0 l ms)
               \<lparr> kmp_complete := True,
                 kmp_description := ''Search complete. Found '' @ show_nat (length ms)
                   @ '' match(es)'' \<rparr>]))"

declare search_loop.simps [code]

text \<open>
  \<open>search\<close> on a matcher holding text \<open>t\<close> and pattern \<open>p\<close>: the matches it returns and the
  snapshots it leaves in \<open>this.states\<close>, which \<open>reset\<close> empties first.
\<close>

definition search :: "string \<Rightarrow> string \<Rightarrow> (int list \<times> kmp_state list) option" where
  "search t p =
     (if length p = 0 \<or> length t = 0 then Some ([], [])
      else
        case buildLPS p of
          None \<Rightarrow> None
        | Some l \<Rightarrow>
            search_loop t p l 0 0 []
              [(kmp_snapshot t p 0 0 l [])
                 \<lparr> kmp_comparing := Some [],
                   kmp_description := ''Built LPS array: ['' @ join '', '' (map show_nat l) @ '']'' \<rparr>])"

text \<open>
  What a returning \<open>search_loop\<close> gives back, seen from the snapshots \<open>sts\<close> it started
  with: those snapshots, followed by at least one more, the last of which is the
  \<open>complete\<close> snapshot.
\<close>

definition ends_complete :: "kmp_state list \<Rightarrow> (int list \<times> kmp_state list) option \<Rightarrow> bool" where
  "ends_complete sts r =
     (\<exists>ms new. r = Some (ms, sts @ new) \<and> new \<noteq> [] \<and> kmp_complete (last new))"

section \<open>Tower of Hanoi: \<open>TowerOfHanoi\<close>\<close>

text \<open>
  A move \<open>{disk, from, to}\<close>; pegs are numbered 0, 1, 2.
\<close>

datatype move = Move (mv_disk: nat) (mv_from: nat) (mv_to: nat)

text \<open>
  A peg is the array of its disks, bottom first. \<open>pop\<close> on an empty array returns
  \<open>undefined\<close> and \<open>push\<close> stores whatever it is given, so an entry of a peg is a disk or
  \<open>undefined\<close> (\<open>None\<close>).
\<close>

type_synonym pegs = "nat option list list"

definition pop :: "'a option list \<Rightarrow> 'a option \<times> 'a option list" where
  "pop xs = (if xs = [] then (None, xs) else (last xs, butlast xs))"

text \<open>
  A snapshot of \<open>generateStates\<close>. The initial snapshot has \<open>move: null\<close> and no
  \<open>movingDisk\<close>, \<open>fromPeg\<close>, \<open>toPeg\<close>.
\<close>

record hanoi_state =
  h_pegs :: pegs
  h_move :: "move option"
  h_moveNumber :: nat
  h_movingDisk :: "nat option"
  h_fromPeg :: "nat option"
  h_toPeg :: "nat option"
  h_description :: string

text \<open>\<open>Array.from({ length: numDisks }, (_, i) => numDisks - i)\<close> and two empty pegs.\<close>

definition initial_pegs :: "nat \<Rightarrow> pegs" where
  "initial_pegs numDisks = [map (\<lambda>i. Some (numDisks - i)) [0..<numDisks], [], []]"

text \<open>The closure \<open>recordMoves\<close>, with the array \<open>moves\<close> it pushes to.\<close>

fun recordMoves :: "nat \<Rightarrow> nat \<Rightarrow> nat \<Rightarrow> nat \<Rightarrow> move list \<Rightarrow> move list" where
  "recordMoves 0 source target auxiliary moves = moves"
| "recordMoves (Suc n) source target auxiliary moves =
     recordMoves n auxiliary target source
       (recordMoves n source auxiliary target moves @ [Move (Suc n) source target])"

text \<open>
  The body of \<open>moves.forEach\<close>, from the move with index \<open>index\<close> on: it moves the top
  entry between the pegs and pushes a snapshot with a copy of them.
\<close>

fun replay :: "move list \<Rightarrow> nat \<Rightarrow> pegs \<Rightarrow> hanoi_state list \<Rightarrow> hanoi_state list" where
  "replay [] index pegs states = states"
| "replay (m # ms) index pegs states =
     (case pop (pegs ! mv_from m) of (disk, rest) \<Rightarrow>
        let pegs1 = pegs[mv_from m := rest];
            pegs2 = pegs1[mv_to m := pegs1 ! mv_to m @ [disk]]
        in replay ms (index + 1) pegs2
             (states @
              [\<lparr> h_pegs = pegs2, h_move = Some m, h_moveNumber = index + 1,
                 h_movingDisk = Some (mv_disk m), h_fromPeg = Some (mv_from m),
                 h_toPeg = Some (mv_to m),
                 h_description = ''Move disk '' @ show_nat (mv_disk m) @ '' from Peg ''
                   @ show_nat (mv_from m + 1) @ '' to Peg '' @ show_nat (mv_to m + 1) \<rparr>]))"

definition TowerOfHanoi_generateStates :: "nat \<Rightarrow> hanoi_state list" where
  "TowerOfHanoi_generateStates numDisks =
     replay (recordMoves numDisks 0 2 1 []) 0 (initial_pegs numDisks)
       [\<lparr> h_pegs = initial_pegs numDisks, h_move = None, h_moveNumber = 0,
          h_movingDisk = None, h_fromPeg = None, h_toPeg = None,
          h_description = ''Initial state: All disks on the first peg'' \<rparr>]"

definition getMinMoves :: "nat \<Rightarrow> nat" where
  "getMinMoves numDisks = 2 ^ numDisks - 1"

section \<open>N-Queens: \<open>NQueens.generateStates\<close>\<close>

text \<open>
  A queen or a conflict is an object \<open>{row, col}\<close>. A column read from the array \<open>board\<close>
  can be \<open>-1\<close> (no queen in that row), so columns are integers.
\<close>

type_synonym square = "nat \<times> int"

text \<open>
  A snapshot. \<open>currentRow\<close> and \<open>currentCol\<close> can be \<open>-1\<close>; \<open>safe\<close> is present in the
  snapshots of a check only; \<open>isSolution\<close> and \<open>isBacktrack\<close> are \<open>False\<close> where the object
  has no such field.
\<close>

record nq_state =
  nq_board :: "nat list list"
  nq_queens :: "square list"
  nq_currentRow :: int
  nq_currentCol :: int
  nq_checking :: "(nat \<times> nat) option"
  nq_conflicts :: "square list"
  nq_safe :: "bool option"
  nq_description :: string
  nq_solutionsFound :: nat
  nq_isSolution :: bool
  nq_isBacktrack :: bool

text \<open>\<open>Array(n).fill().map(() => Array(n).fill(0))\<close>\<close>

definition empty_grid :: "nat \<Rightarrow> nat list list" where
  "empty_grid n = replicate n (replicate n 0)"

text \<open>
  \<open>grid[r][c] = 1\<close>. Every call below writes inside the grid: \<open>r\<close> is a loop index
  below \<open>n\<close>, and \<open>c\<close> is a column that the column loop, which also stays below \<open>n\<close>,
  has stored in \<open>board\<close>. The reads \<open>board[r]\<close> are inside \<open>board\<close> for the same reason.
\<close>

definition mark :: "nat list list \<Rightarrow> nat \<Rightarrow> nat \<Rightarrow> nat list list" where
  "mark grid r c = grid[r := (grid ! r)[c := 1]]"

text \<open>
  The loop \<open>for (r = 0; r < rows; r++) if (board[r] >= 0) { grid[r][board[r]] = 1;
  queens.push({ row: r, col: board[r] }) }\<close>, from row \<open>r\<close> on, on the grid and the queens
  it has so far.
\<close>

function place_queens ::
  "int list \<Rightarrow> nat \<Rightarrow> nat \<Rightarrow> nat list list \<times> square list \<Rightarrow> nat list list \<times> square list" where
  "place_queens board rows r (grid, queens) =
     (if r < rows then
        place_queens board rows (r + 1)
          (if board ! r \<ge> 0
           then (mark grid r (nat (board ! r)), queens @ [(r, board ! r)])
           else (grid, queens))
      else (grid, queens))"
  by pat_completeness auto
termination
  by (relation "measure (\<lambda>(board, rows, r, gq). rows - r)") auto

declare place_queens.simps [simp del]

text \<open>
  The conflict loop: \<open>for (r = 0; r < row; r++) { c = board[r]; if (c === col ||
  Math.abs(r - row) === Math.abs(c - col)) { safe = false; conflicts.push({row: r, col: c}) } }\<close>.
\<close>

function find_conflicts ::
  "int list \<Rightarrow> nat \<Rightarrow> nat \<Rightarrow> nat \<Rightarrow> bool \<times> square list \<Rightarrow> bool \<times> square list" where
  "find_conflicts board row col r (safe, conflicts) =
     (if r < row then
        find_conflicts board row col (r + 1)
          (if board ! r = int col \<or> \<bar>int r - int row\<bar> = \<bar>board ! r - int col\<bar>
           then (False, conflicts @ [(r, board ! r)])
           else (safe, conflicts))
      else (safe, conflicts))"
  by pat_completeness auto
termination
  by (relation "measure (\<lambda>(board, row, col, r, sc). row - r)") auto

declare find_conflicts.simps [simp del]

text \<open>
  What \<open>solve\<close> reads and writes outside its own frame: the array \<open>board\<close>, the array
  \<open>states\<close> and the counter \<open>solutionsFound\<close>.
\<close>

record nq_run =
  board :: "int list"
  states :: "nq_state list"
  solutionsFound :: nat

definition nq_snapshot :: "nat list list \<Rightarrow> square list \<Rightarrow> int \<Rightarrow> int \<Rightarrow> nat \<Rightarrow> nq_state" where
  "nq_snapshot grid queens row col found =
     \<lparr> nq_board = grid, nq_queens = queens, nq_currentRow = row, nq_currentCol = col,
       nq_checking = None, nq_conflicts = [], nq_safe = None, nq_description = [],
       nq_solutionsFound = found, nq_isSolution = False, nq_isBacktrack = False \<rparr>"

text \<open>The branch \<open>row >= this.n\<close> of \<open>solve\<close>, up to its \<open>return\<close>.\<close>

definition record_solution :: "nat \<Rightarrow> nq_run \<Rightarrow> nq_run" where
  "record_solution n s =
     (let found = solutionsFound s + 1;
          (grid, queens) = place_queens (board s) n 0 (empty_grid n, [])
      in s\<lparr> solutionsFound := found,
            states := states s @
              [(nq_snapshot grid queens (- 1) (- 1) found)
                 \<lparr> nq_description := ''Solution '' @ show_nat found @ '' found!'',
                   nq_isSolution := True \<rparr>] \<rparr>)"

text \<open>
  The body of the \<open>for\<close> loop of \<open>solve\<close>, in the three blocks between which it descends
  or moves on. Its locals \<open>boardGrid\<close> and \<open>queens\<close> are computed from \<open>board\<close> at the top
  of the iteration, and \<open>safe\<close> and \<open>conflicts\<close> from \<open>board\<close> and the square.
\<close>

definition queens_above :: "nat \<Rightarrow> nat \<Rightarrow> nq_run \<Rightarrow> nat list list \<times> square list" where
  "queens_above n row s = place_queens (board s) row 0 (empty_grid n, [])"

definition conflicts_at :: "nat \<Rightarrow> nat \<Rightarrow> nq_run \<Rightarrow> bool \<times> square list" where
  "conflicts_at row col s = find_conflicts (board s) row col 0 (True, [])"

text \<open>
  First block: the snapshot of the check is pushed. It is pushed with the arrays
  \<open>boardGrid\<close> and \<open>queens\<close> themselves, not with copies, and it sits at index
  \<open>length (states s)\<close> of \<open>states\<close> from then on.
\<close>

definition checked :: "nat \<Rightarrow> nat \<Rightarrow> nat \<Rightarrow> nq_run \<Rightarrow> nq_run" where
  "checked n row col s =
     (case queens_above n row s of (boardGrid, queens) \<Rightarrow>
      case conflicts_at row col s of (safe, conflicts) \<Rightarrow>
        s\<lparr> states := states s @
              [(nq_snapshot boardGrid queens (int row) (int col) (solutionsFound s))
                 \<lparr> nq_checking := Some (row, col), nq_conflicts := conflicts,
                   nq_safe := Some safe,
                   nq_description :=
                     (if safe
                      then ''Row '' @ show_nat (row + 1) @ '', Col '' @ show_nat (col + 1)
                           @ '': Safe position''
                      else ''Row '' @ show_nat (row + 1) @ '', Col '' @ show_nat (col + 1)
                           @ '': Conflicts detected'') \<rparr>] \<rparr>)"

text \<open>
  Second block, when the square is safe: the queen is written into \<open>board\<close>, into
  \<open>boardGrid\<close> and into \<open>queens\<close>, which changes the snapshot of the check as well, and a
  snapshot with copies of both arrays is pushed.
\<close>

definition placed :: "nat \<Rightarrow> nat \<Rightarrow> nat \<Rightarrow> nq_run \<Rightarrow> nq_run" where
  "placed n row col s =
     (case queens_above n row s of (boardGrid, queens) \<Rightarrow>
      let k = length (states s);
          s1 = checked n row col s;
          boardGrid1 = mark boardGrid row col;
          queens1 = queens @ [(row, int col)]
      in s1\<lparr> board := (board s1)[row := int col],
              states := (states s1)
                [k := (states s1 ! k)\<lparr> nq_board := boardGrid1, nq_queens := queens1 \<rparr>]
                @ [(nq_snapshot boardGrid1 queens1 (int row) (int col) (solutionsFound s1))
                     \<lparr> nq_description := ''Placed queen at row '' @ show_nat (row + 1)
                         @ '', column '' @ show_nat (col + 1) \<rparr>] \<rparr>)"

text \<open>
  Third block, after \<open>solve(row + 1)\<close> has returned \<open>false\<close> with the variables \<open>s3\<close>
  (\<open>s\<close> is still the run at the top of the iteration): the queen is taken off \<open>board\<close>
  and popped from \<open>queens\<close>, which changes the snapshot of the check once more, and the
  backtrack snapshot is pushed.
\<close>

definition backtracked :: "nat \<Rightarrow> nat \<Rightarrow> nat \<Rightarrow> nq_run \<Rightarrow> nq_run \<Rightarrow> nq_run" where
  "backtracked n row col s s3 =
     (case queens_above n row s of (boardGrid, queens) \<Rightarrow>
      let k = length (states s);
          board4 = (board s3)[row := - 1];
          queens2 = butlast (queens @ [(row, int col)]);
          backtrackGrid = fst (place_queens board4 row 0 (empty_grid n, []))
      in s3\<lparr> board := board4,
              states := (states s3)
                [k := (states s3 ! k)\<lparr> nq_queens := queens2 \<rparr>]
                @ [(nq_snapshot backtrackGrid (filter (\<lambda>q. fst q < row) queens2)
                      (int row) (int col) (solutionsFound s3))
                     \<lparr> nq_isBacktrack := True,
                       nq_description := ''Backtracking from row '' @ show_nat (row + 1) \<rparr>] \<rparr>)"

text \<open>
  \<open>solve row\<close> is the closure \<open>solve\<close>; \<open>try_cols row col\<close> is its \<open>for\<close> loop from column
  \<open>col\<close> on. Both return the value \<open>solve\<close> returns at that point, and the variables after
  it.
\<close>

function solve :: "nat \<Rightarrow> bool \<Rightarrow> nat \<Rightarrow> nq_run \<Rightarrow> bool \<times> nq_run"
  and try_cols :: "nat \<Rightarrow> bool \<Rightarrow> nat \<Rightarrow> nat \<Rightarrow> nq_run \<Rightarrow> bool \<times> nq_run" where
  "solve n findFirst row s =
     (if row \<ge> n then (findFirst, record_solution n s)
      else try_cols n findFirst row 0 s)"
| "try_cols n findFirst row col s =
     (if col < n then
        (if fst (conflicts_at row col s) then
           (case solve n findFirst (row + 1) (placed n row col s) of (found, s3) \<Rightarrow>
              if found then (True, s3)
              else try_cols n findFirst row (col + 1) (backtracked n row col s s3))
         else try_cols n findFirst row (col + 1) (checked n row col s))
      else (False, s))"
  by pat_completeness auto
termination
  by (relation "measures
        [\<lambda>x. case x of Inl (n, findFirst, row, s) \<Rightarrow> n + 1 - row
                      | Inr (n, findFirst, row, col, s) \<Rightarrow> n - row,
         \<lambda>x. case x of Inl (n, findFirst, row, s) \<Rightarrow> 0
                      | Inr (n, findFirst, row, col, s) \<Rightarrow> n + 1 - col]") auto

declare solve.simps [simp del]
declare try_cols.simps [simp del]

text \<open>\<open>generateStates(findFirst)\<close> on a solver of size \<open>n\<close>.\<close>

definition NQueens_generateStates :: "nat \<Rightarrow> bool \<Rightarrow> nq_state list" where
  "NQueens_generateStates n findFirst =
     states (snd (solve n findFirst 0
       \<lparr> board = replicate n (- 1),
         states = [(nq_snapshot (empty_grid n) [] 0 (- 1) 0)
                     \<lparr> nq_description := ''Starting N-Queens solver'' \<rparr>],
         solutionsFound = 0 \<rparr>))"

section \<open>Properties of the playback engine\<close>

subsection \<open>What the notifications leave alone\<close>

lemma deliver_fields [simp]:
  "isPlaying (deliver n s) = isPlaying s"
  "isPaused (deliver n s) = isPaused s"
  "currentStep (deliver n s) = currentStep s"
  "totalSteps (deliver n s) = totalSteps s"
  "speed (deliver n s) = speed s"
  "steps (deliver n s) = steps s"
  "animationFrameId (deliver n s) = animationFrameId s"
  "lastFrameTime (deliver n s) = lastFrameTime s"
  "stepDuration (deliver n s) = stepDuration s"
  "onStepChange (deliver n s) = onStepChange s"
  "onComplete (deliver n s) = onComplete s"
  "onStateChange (deliver n s) = onStateChange s"
  "frameQueue (deliver n s) = frameQueue s"
  "nextHandle (deliver n s) = nextHandle s"
  by (simp_all add: deliver_def)

lemma notifyStepChange_fields [simp]:
  "isPlaying (notifyStepChange s) = isPlaying s"
  "isPaused (notifyStepChange s) = isPaused s"
  "currentStep (notifyStepChange s) = currentStep s"
  "totalSteps (notifyStepChange s) = totalSteps s"
  "speed (notifyStepChange s) = speed s"
  "steps (notifyStepChange s) = steps s"
  "animationFrameId (notifyStepChange s) = animationFrameId s"
  "lastFrameTime (notifyStepChange s) = lastFrameTime s"
  "stepDuration (notifyStepChange s) = stepDuration s"
  "onStepChange (notifyStepChange s) = onStepChange s"
  "onComplete (notifyStepChange s) = onComplete s"
  "onStateChange (notifyStepChange s) = onStateChange s"
  "frameQueue (notifyStepChange s) = frameQueue s"
  "nextHandle (notifyStepChange s) = nextHandle s"
  by (simp_all add: notifyStepChange_def)

lemma notifyStateChange_fields [simp]:
  "isPlaying (notifyStateChange s) = isPlaying s"
  "isPaused (notifyStateChange s) = isPaused s"
  "currentStep (notifyStateChange s) = currentStep s"
  "totalSteps (notifyStateChange s) = totalSteps s"
  "speed (notifyStateChange s) = speed s"
  "steps (notifyStateChange s) = steps s"
  "animationFrameId (notifyStateChange s) = animationFrameId s"
  "lastFrameTime (notifyStateChange s) = lastFrameTime s"
  "stepDuration (notifyStateChange s) = stepDuration s"
  "onStepChange (notifyStateChange s) = onStepChange s"
  "onComplete (notifyStateChange s) = onComplete s"
  "onStateChange (notifyStateChange s) = onStateChange s"
  "frameQueue (notifyStateChange s) = frameQueue s"
  "nextHandle (notifyStateChange s) = nextHandle s"
  by (simp_all add: notifyStateChange_def)

lemma pause_fields [simp]:
  "currentStep (pause s) = currentStep s"
  "totalSteps (pause s) = totalSteps s"
  "steps (pause s) = steps s"
  "speed (pause s) = speed s"
  "stepDuration (pause s) = stepDuration s"
  "isPlaying (pause s) = False"
  "isPaused (pause s) = True"
  "nextHandle (pause s) = nextHandle s"
  "onStepChange (pause s) = onStepChange s"
  "onComplete (pause s) = onComplete s"
  "onStateChange (pause s) = onStateChange s"
  by (simp_all add: pause_def Let_def cancelAnimationFrame_def split: option.split)

lemma schedule_fields [simp]:
  "currentStep (schedule s) = currentStep s"
  "totalSteps (schedule s) = totalSteps s"
  "steps (schedule s) = steps s"
  "speed (schedule s) = speed s"
  "isPlaying (schedule s) = isPlaying s"
  "isPaused (schedule s) = isPaused s"
  "onStateChange (schedule s) = onStateChange s"
  "delivered (schedule s) = delivered s"
  "animationFrameId (schedule s) = Some (nextHandle s)"
  "frameQueue (schedule s) = frameQueue s @ [nextHandle s]"
  by (simp_all add: schedule_def requestAnimationFrame_def)

subsection \<open>How a call moves the position\<close>

text \<open>
  Whatever the call and whatever the state: the position stays, or goes to 0, or goes up
  by one from below the last index, or goes down by one from above 0, or is what \<open>goToStep\<close>
  computes from its argument. (\<open>play\<close> can go to 0 and up by one in the same call.)
\<close>

lemma animate_totalSteps [simp]: "totalSteps (animate rnd now s) = totalSteps s"
  by (simp add: animate_def Let_def)

lemma animate_position:
  "currentStep (animate rnd now s) = currentStep s
   \<or> (js_lt (currentStep s) (Num (of_int (totalSteps s - 1)))
       \<and> currentStep (animate rnd now s) = js_add (currentStep s) 1)"
  by (simp add: animate_def Let_def)

lemma play_position:
  "currentStep (play rnd t0 t1 s) = currentStep s
   \<or> currentStep (play rnd t0 t1 s) = Num 0
   \<or> (js_lt (currentStep s) (Num (of_int (totalSteps s - 1)))
       \<and> currentStep (play rnd t0 t1 s) = js_add (currentStep s) 1)
   \<or> (js_lt (Num 0) (Num (of_int (totalSteps s - 1)))
       \<and> currentStep (play rnd t0 t1 s) = Num 1)"
proof (cases "js_le (Num (of_int (totalSteps s - 1))) (currentStep s)")
  case True
  let ?s2 = "(reset s)\<lparr>isPlaying := True, isPaused := False, lastFrameTime := t0\<rparr>"
  have "currentStep ?s2 = Num 0" and "totalSteps ?s2 = totalSteps s"
    by (simp_all add: reset_def)
  with animate_position [of rnd t1 ?s2] True show ?thesis
    by (auto simp add: play_def Let_def)
next
  case False
  let ?s2 = "s\<lparr>isPlaying := True, isPaused := False, lastFrameTime := t0\<rparr>"
  have "currentStep ?s2 = currentStep s" and "totalSteps ?s2 = totalSteps s"
    by simp_all
  with animate_position [of rnd t1 ?s2] False show ?thesis
    by (auto simp add: play_def Let_def)
qed

lemma frame_position:
  "currentStep (frame rnd h now s) = currentStep s
   \<or> (js_lt (currentStep s) (Num (of_int (totalSteps s - 1)))
       \<and> currentStep (frame rnd h now s) = js_add (currentStep s) 1)"
  using animate_position [of rnd now "s\<lparr>frameQueue := removeAll h (frameQueue s)\<rparr>"]
  by (simp add: frame_def)

lemma apply_call_totalSteps [simp]: "totalSteps (apply_call rnd c s) = totalSteps s"
  by (cases c) (simp_all add: stepForward_def stepBackward_def goToStep_def play_def Let_def
      toggle_def setSpeed_def reset_def stop_def frame_def)

lemma apply_call_position:
  "currentStep (apply_call rnd c s) = currentStep s
   \<or> currentStep (apply_call rnd c s) = Num 0
   \<or> (js_lt (currentStep s) (Num (of_int (totalSteps s - 1)))
       \<and> currentStep (apply_call rnd c s) = js_add (currentStep s) 1)
   \<or> (js_lt (Num 0) (Num (of_int (totalSteps s - 1)))
       \<and> currentStep (apply_call rnd c s) = Num 1)
   \<or> (js_lt (Num 0) (currentStep s)
       \<and> currentStep (apply_call rnd c s) = js_add (currentStep s) (- 1))
   \<or> (\<exists>i. c = GoToStep i
       \<and> currentStep (apply_call rnd c s)
           = js_max (Num 0) (js_min i (Num (of_int (totalSteps s - 1)))))"
proof (cases c)
  case (Play t0 t1)
  with play_position [of rnd t0 t1 s] show ?thesis
    by auto
next
  case (Toggle t0 t1)
  with play_position [of rnd t0 t1 s] show ?thesis
    by (auto simp add: toggle_def)
next
  case (Frame h now)
  with frame_position [of rnd h now s] show ?thesis
    by auto
qed (simp_all add: stepForward_def stepBackward_def goToStep_def setSpeed_def reset_def
      stop_def)

lemma run_totalSteps [simp]: "totalSteps (run rnd cs s) = totalSteps s"
  by (induction cs arbitrary: s) simp_all

subsection \<open>The position invariant\<close>

lemma goToStep_whole:
  assumes "whole i"
  shows "\<exists>k. js_max (Num 0) (js_min i (Num (of_int m))) = Num (of_int k)
           \<and> 0 \<le> k \<and> k \<le> max 0 m"
proof (cases i)
  case (Num r)
  with assms obtain j where r: "r = of_int j"
    by (auto simp add: whole_def)
  show ?thesis
  proof (cases "m < j")
    case True
    with Num r show ?thesis
      by (cases "0 < m") (auto simp add: js_max_def js_min_def)
  next
    case False
    with Num r show ?thesis
      by (cases "0 < j") (auto simp add: js_max_def js_min_def)
  qed
next
  case NaN
  with assms show ?thesis
    by (simp add: whole_def)
next
  case PosInfinity
  then show ?thesis
    by (cases "0 < m") (auto simp add: js_max_def js_min_def)
next
  case NegInfinity
  then show ?thesis
    by (auto simp add: js_max_def js_min_def intro: exI [of _ 0])
qed

lemma apply_call_in_range:
  assumes "in_range s" and "whole_call c"
  shows "in_range (apply_call rnd c s)"
proof -
  from assms(1) obtain k where k: "currentStep s = Num (of_int k)" "0 \<le> k"
    "k \<le> max 0 (totalSteps s - 1)"
    by (auto simp add: in_range_def)
  let ?p = "currentStep (apply_call rnd c s)"
  have "\<exists>k'. ?p = Num (of_int k') \<and> 0 \<le> k' \<and> k' \<le> max 0 (totalSteps s - 1)"
    using apply_call_position [of rnd c s]
  proof (elim disjE conjE exE)
    assume "?p = currentStep s"
    with k show ?thesis by auto
  next
    assume "?p = Num 0"
    then show ?thesis by (auto intro: exI [of _ 0])
  next
    assume "js_lt (currentStep s) (Num (of_int (totalSteps s - 1)))"
      and "?p = js_add (currentStep s) 1"
    with k show ?thesis by (auto intro: exI [of _ "k + 1"])
  next
    assume "js_lt (Num 0) (Num (of_int (totalSteps s - 1)))" and "?p = Num 1"
    then show ?thesis by (auto intro: exI [of _ 1])
  next
    assume "js_lt (Num 0) (currentStep s)" and "?p = js_add (currentStep s) (- 1)"
    with k show ?thesis by (auto intro: exI [of _ "k - 1"])
  next
    fix i
    assume "c = GoToStep i"
      and "?p = js_max (Num 0) (js_min i (Num (of_int (totalSteps s - 1))))"
    with assms(2) goToStep_whole [of i "totalSteps s - 1"] show ?thesis by auto
  qed
  then show ?thesis
    by (simp add: in_range_def)
qed

lemma run_in_range: "in_range s \<Longrightarrow> list_all whole_call cs \<Longrightarrow> in_range (run rnd cs s)"
  by (induction cs arbitrary: s) (simp_all add: apply_call_in_range)

lemma setSteps_in_range: "in_range (setSteps xs s)"
  by (auto simp add: in_range_def setSteps_def intro: exI [of _ 0])

text \<open>With at most one snapshot loaded, no call of any kind moves the position off 0,
  except that \<open>goToStep(NaN)\<close> stores \<open>NaN\<close>.\<close>

lemma goToStep_at_start:
  assumes "m \<le> 0"
  shows "js_max (Num 0) (js_min i (Num (of_int m))) = (if i = NaN then NaN else Num 0)"
  using assms by (cases i) (auto simp add: js_max_def js_min_def)

lemma apply_call_at_start:
  assumes "at_start s"
  shows "at_start (apply_call rnd c s)"
    and "c \<noteq> GoToStep NaN \<Longrightarrow> currentStep s = Num 0
         \<Longrightarrow> currentStep (apply_call rnd c s) = Num 0"
proof -
  from assms have t: "totalSteps s - 1 \<le> 0"
    and p: "currentStep s = Num 0 \<or> currentStep s = NaN"
    by (simp_all add: at_start_def)
  let ?p = "currentStep (apply_call rnd c s)"
  have cases: "?p = currentStep s \<or> ?p = Num 0
    \<or> (\<exists>i. c = GoToStep i \<and> ?p = (if i = NaN then NaN else Num 0))"
    using apply_call_position [of rnd c s] t p goToStep_at_start [OF t]
    by (elim disjE conjE exE) auto
  with p show "at_start (apply_call rnd c s)"
    using assms by (auto simp add: at_start_def)
  show "?p = Num 0" if "c \<noteq> GoToStep NaN" and "currentStep s = Num 0"
    using cases that by (auto split: if_splits)
qed

lemma run_at_start: "at_start s \<Longrightarrow> at_start (run rnd cs s)"
  by (induction cs arbitrary: s) (simp_all add: apply_call_at_start(1))

lemma run_stays_zero:
  "at_start s \<Longrightarrow> currentStep s = Num 0 \<Longrightarrow> GoToStep NaN \<notin> set cs
   \<Longrightarrow> currentStep (run rnd cs s) = Num 0"
proof (induction cs arbitrary: s)
  case Nil
  then show ?case by simp
next
  case (Cons c cs)
  from Cons.prems have "c \<noteq> GoToStep NaN"
    by auto
  with Cons.prems apply_call_at_start [where s = s and rnd = rnd and c = c]
    Cons.IH [of "apply_call rnd c s"]
  show ?case
    by simp
qed

text \<open>
  C1, as the claim states it, fails: \<open>goToStep\<close> stores \<open>Math.max(0, Math.min(step, N - 1))\<close>
  for whatever number it is given. On three snapshots, \<open>goToStep(1.5)\<close> followed by
  \<open>stepForward()\<close> leaves the position at 2.5, beyond the last index 2, and \<open>goToStep(NaN)\<close>
  leaves it at \<open>NaN\<close>.
\<close>

theorem goToStep_fraction_leaves_range:
  "currentStep (run Num [GoToStep (Num 1.5), StepForward]
      (setSteps [10::nat, 20, 30] new_controller)) = Num 2.5
   \<and> js_lt (Num 2) (currentStep (run Num [GoToStep (Num 1.5), StepForward]
      (setSteps [10::nat, 20, 30] new_controller)))
   \<and> currentStep (run Num [GoToStep NaN] (setSteps [10::nat, 20, 30] new_controller)) = NaN"
  by (simp add: setSteps_def goToStep_def stepForward_def js_max_def js_min_def)

text \<open>
  C1, amended. Load a non-empty sequence of length \<open>N\<close> into a controller in any state,
  then let anything happen to it in any order: calls of \<open>stepForward\<close>, \<open>stepBackward\<close>,
  \<open>goToStep\<close>, \<open>play\<close>, \<open>pause\<close> (and \<open>toggle\<close>, \<open>setSpeed\<close>, \<open>reset\<close>, \<open>stop\<close>) and
  frame callbacks, at any clock readings and with any speed. If every argument of
  \<open>goToStep\<close> is a whole number or an infinity, the position is a whole number in
  \<open>[0, N - 1]\<close> afterwards. With the empty sequence loaded, or with nothing loaded into a
  new controller (whatever callbacks and base duration the page has set), the position
  afterwards is 0 or \<open>NaN\<close>, never above 0, whatever the arguments; it is 0 unless
  \<open>goToStep(NaN)\<close> was among the calls. No method has a failing branch: none of them reads
  or calls anything that can throw, and \<open>getCurrentState\<close> answers \<open>null\<close> when there is no
  snapshot at the position.
\<close>

theorem position_stays_in_range:
  "(xs \<noteq> [] \<and> list_all whole_call cs \<longrightarrow>
      (\<exists>k. currentStep (run rnd cs (setSteps xs s)) = Num (of_int k)
           \<and> 0 \<le> k \<and> k \<le> int (length xs) - 1))
   \<and> (currentStep (run rnd cs (setSteps [] s)) = Num 0
        \<or> currentStep (run rnd cs (setSteps [] s)) = NaN)
   \<and> (GoToStep NaN \<notin> set cs \<longrightarrow> currentStep (run rnd cs (setSteps [] s)) = Num 0)
   \<and> (currentStep (run rnd cs ((new_controller :: 'a controller)
          \<lparr>stepDuration := d, onStepChange := a, onComplete := b, onStateChange := c\<rparr>)) = Num 0
        \<or> currentStep (run rnd cs ((new_controller :: 'a controller)
          \<lparr>stepDuration := d, onStepChange := a, onComplete := b, onStateChange := c\<rparr>)) = NaN)
   \<and> (GoToStep NaN \<notin> set cs \<longrightarrow>
        currentStep (run rnd cs ((new_controller :: 'a controller)
          \<lparr>stepDuration := d, onStepChange := a, onComplete := b, onStateChange := c\<rparr>)) = Num 0)"
proof -
  let ?n = "(new_controller :: 'a controller)
         \<lparr>stepDuration := d, onStepChange := a, onComplete := b, onStateChange := c\<rparr>"
  let ?e = "setSteps [] s"
  have loaded: "\<exists>k. currentStep (run rnd cs (setSteps xs s)) = Num (of_int k)
           \<and> 0 \<le> k \<and> k \<le> int (length xs) - 1"
    if "xs \<noteq> []" and "list_all whole_call cs"
  proof -
    have "in_range (run rnd cs (setSteps xs s))"
      using setSteps_in_range that(2) by (rule run_in_range)
    moreover have "totalSteps (run rnd cs (setSteps xs s)) = int (length xs)"
      by (simp add: setSteps_def)
    moreover from that(1) have "max 0 (int (length xs) - 1) = int (length xs) - 1"
      by (cases xs) simp_all
    ultimately show ?thesis
      by (simp add: in_range_def)
  qed
  have e: "at_start ?e" "currentStep ?e = Num 0"
    by (simp_all add: at_start_def setSteps_def)
  have n: "at_start ?n" "currentStep ?n = Num 0"
    by (simp_all add: at_start_def new_controller_def)
  have "currentStep (run rnd cs ?e) = Num 0 \<or> currentStep (run rnd cs ?e) = NaN"
    using run_at_start [OF e(1), of rnd cs] by (simp add: at_start_def)
  moreover have "currentStep (run rnd cs ?n) = Num 0 \<or> currentStep (run rnd cs ?n) = NaN"
    using run_at_start [OF n(1), of rnd cs] by (simp add: at_start_def)
  moreover have "currentStep (run rnd cs ?e) = Num 0" if "GoToStep NaN \<notin> set cs"
    using e that by (rule run_stays_zero)
  moreover have "currentStep (run rnd cs ?n) = Num 0" if "GoToStep NaN \<notin> set cs"
    using n that by (rule run_stays_zero)
  ultimately show ?thesis
    using loaded by blast
qed

theorem position_stays_in_range_witness:
  "(\<exists>k. currentStep (run Num [Play 0 0, Frame 1 600, GoToStep (Num 9), StepForward, Pause]
          (setSteps [10::nat, 20, 30] new_controller)) = Num (of_int k) \<and> 0 \<le> k \<and> k \<le> 2)
   \<and> currentStep (run Num [Play 0 0, Frame 1 600, GoToStep (Num 9), StepForward, Pause]
          (setSteps [] (new_controller :: nat controller))) = Num 0"
proof -
  let ?cs = "[Play 0 0, Frame 1 600, GoToStep (Num 9), StepForward, Pause]"
  have 1: "[10::nat, 20, 30] \<noteq> []" and 2: "list_all whole_call ?cs"
    and 3: "GoToStep NaN \<notin> set ?cs"
    by (simp_all add: whole_def)
  from position_stays_in_range [where xs = "[10::nat, 20, 30]" and s = new_controller
      and cs = ?cs and rnd = Num and d = 0 and a = False and b = False and c = False] 1 2 3
  have "(\<exists>k. currentStep (run Num ?cs (setSteps [10::nat, 20, 30] new_controller))
            = Num (of_int k) \<and> 0 \<le> k \<and> k \<le> int (length [10::nat, 20, 30]) - 1)
      \<and> currentStep (run Num ?cs (setSteps [] (new_controller :: nat controller))) = Num 0"
    by blast
  then show ?thesis
    by (simp del: run.simps)
qed

subsection \<open>Clamping at the boundaries\<close>

text \<open>
  C5. With a sequence of length \<open>N \<ge> 1\<close> loaded (\<open>totalSteps = N\<close>), the position
  clamps and never wraps: \<open>stepForward\<close> at index \<open>N - 1\<close> and \<open>stepBackward\<close> at index 0
  return the controller as it was (position, flags and notifications alike), and
  \<open>goToStep i\<close> puts the position at 0 for every number \<open>i < 0\<close> and at \<open>N - 1\<close> for every
  number \<open>i \<ge> N\<close>, the infinities included.
\<close>

theorem boundaries_clamp:
  assumes "1 \<le> totalSteps s"
  shows "(currentStep s = Num (of_int (totalSteps s - 1)) \<longrightarrow> stepForward s = s)
       \<and> (currentStep s = Num 0 \<longrightarrow> stepBackward s = s)
       \<and> (js_lt i (Num 0) \<longrightarrow> currentStep (goToStep i s) = Num 0)
       \<and> (js_le (Num (of_int (totalSteps s))) i \<longrightarrow>
            currentStep (goToStep i s) = Num (of_int (totalSteps s - 1)))"
proof -
  have "currentStep (goToStep i s) = Num 0" if "js_lt i (Num 0)"
    using that assms by (cases i) (auto simp add: goToStep_def js_max_def js_min_def)
  moreover have "currentStep (goToStep i s) = Num (of_int (totalSteps s - 1))"
    if "js_le (Num (of_int (totalSteps s))) i"
    using that assms by (cases i) (auto simp add: goToStep_def js_max_def js_min_def)
  ultimately show ?thesis
    by (simp add: stepForward_def stepBackward_def)
qed

theorem boundaries_clamp_witness:
  "stepForward (goToStep (Num 2) (setSteps [10::nat, 20, 30] new_controller))
     = goToStep (Num 2) (setSteps [10::nat, 20, 30] new_controller)
   \<and> stepBackward (setSteps [10::nat, 20, 30] new_controller)
       = setSteps [10::nat, 20, 30] new_controller
   \<and> currentStep (goToStep (Num (- 4))
        (goToStep (Num 2) (setSteps [10::nat, 20, 30] new_controller))) = Num 0
   \<and> currentStep (goToStep (Num 7) (setSteps [10::nat, 20, 30] new_controller)) = Num 2"
proof -
  let ?s = "setSteps [10::nat, 20, 30] new_controller"
  have t: "totalSteps ?s = 3" "totalSteps (goToStep (Num 2) ?s) = 3"
    by (simp_all add: setSteps_def goToStep_def)
  have c: "currentStep ?s = Num 0" "currentStep (goToStep (Num 2) ?s) = Num 2"
    by (simp_all add: setSteps_def goToStep_def js_max_def js_min_def)
  from boundaries_clamp [of "goToStep (Num 2) ?s" "Num (- 4)"] boundaries_clamp [of ?s "Num 7"]
    t c
  show ?thesis by simp
qed

subsection \<open>Speed\<close>

text \<open>
  C6, as the claim states it, fails: \<open>setSpeed\<close> stores
  \<open>Math.max(0.25, Math.min(4, speed))\<close>, which is \<open>NaN\<close> for \<open>NaN\<close>, and \<open>NaN\<close> is not in
  \<open>[0.25, 4]\<close>.
\<close>

theorem setSpeed_NaN_is_stored:
  "speed (setSpeed NaN (new_controller :: nat controller)) = NaN
   \<and> \<not> js_le (Num 0.25) (speed (setSpeed NaN (new_controller :: nat controller)))
   \<and> \<not> js_le (speed (setSpeed NaN (new_controller :: nat controller))) (Num 4)"
  by (simp add: setSpeed_def js_max_def js_min_def)

text \<open>
  C6, amended. For every number \<open>x\<close> other than \<open>NaN\<close>, the infinities included,
  \<open>setSpeed x\<close> stores \<open>x\<close> clamped into \<open>[0.25, 4]\<close>: 0.25 for \<open>x < 0.25\<close>, 4 for \<open>x > 4\<close>,
  \<open>x\<close> itself in between. \<open>setSpeed(NaN)\<close> stores \<open>NaN\<close>. In every case the position is the
  one before the call.
\<close>

theorem setSpeed_clamps:
  "(x \<noteq> NaN \<longrightarrow>
      speed (setSpeed x s)
        = (if js_lt x (Num 0.25) then Num 0.25 else if js_lt (Num 4) x then Num 4 else x)
      \<and> js_le (Num 0.25) (speed (setSpeed x s)) \<and> js_le (speed (setSpeed x s)) (Num 4))
   \<and> speed (setSpeed NaN s) = NaN
   \<and> currentStep (setSpeed x s) = currentStep s"
  by (cases x) (auto simp add: setSpeed_def js_max_def js_min_def)

theorem setSpeed_clamps_witness:
  "speed (setSpeed (Num 9) (new_controller :: nat controller)) = Num 4
   \<and> speed (setSpeed (Num 0.1) (new_controller :: nat controller)) = Num 0.25
   \<and> speed (setSpeed (Num 1.5) (new_controller :: nat controller)) = Num 1.5
   \<and> speed (setSpeed NegInfinity (new_controller :: nat controller)) = Num 0.25"
  using setSpeed_clamps [of "Num 9" "new_controller :: nat controller"]
    setSpeed_clamps [of "Num 0.1" "new_controller :: nat controller"]
    setSpeed_clamps [of "Num 1.5" "new_controller :: nat controller"]
    setSpeed_clamps [of NegInfinity "new_controller :: nat controller"]
  by simp

subsection \<open>Loading a sequence\<close>

text \<open>
  C2, as the claim states it, fails: \<open>setSteps\<close> neither clears \<open>isPlaying\<close> nor cancels
  the requested frame. A controller that is playing a three-snapshot sequence and is handed
  another one is still playing afterwards, its frame callback (handle 1) is still queued,
  and when that callback runs half a second later it advances the new sequence to index 1.
\<close>

theorem setSteps_does_not_cancel:
  "isPlaying (setSteps [7::nat, 8, 9] (play Num 0 0 (setSteps [10, 20, 30] new_controller)))
   \<and> frameQueue (setSteps [7::nat, 8, 9]
        (play Num 0 0 (setSteps [10, 20, 30] new_controller))) = [1]
   \<and> currentStep (frame Num 1 500
        (setSteps [7::nat, 8, 9] (play Num 0 0 (setSteps [10, 20, 30] new_controller))))
       = Num 1"
  by (simp add: setSteps_def play_def new_controller_def Let_def animate_def
      getEffectiveDuration_def schedule_def requestAnimationFrame_def frame_def
      notifyStepChange_def notifyStateChange_def)

text \<open>
  C2, amended. From every prior state, \<open>setSteps xs\<close> replaces the sequence by \<open>xs\<close>, sets
  the stored total to its length and resets the position to 0; the playing and paused
  flags, the stored frame handle and the queue of requested frame callbacks are the ones
  before the call.
\<close>

theorem setSteps_replaces_and_rewinds:
  "steps (setSteps xs s) = xs \<and> totalSteps (setSteps xs s) = int (length xs)
   \<and> currentStep (setSteps xs s) = Num 0
   \<and> isPlaying (setSteps xs s) = isPlaying s \<and> isPaused (setSteps xs s) = isPaused s
   \<and> animationFrameId (setSteps xs s) = animationFrameId s
   \<and> frameQueue (setSteps xs s) = frameQueue s"
  by (simp add: setSteps_def)

subsection \<open>Play at the end of the sequence\<close>

text \<open>
  C4, as the claim states it, fails: \<open>play\<close> runs \<open>animate\<close> once before it returns, and
  when \<open>animate\<close> finds a step duration elapsed between the two clock readings of the call
  it advances at once. On three snapshots at index 2, with the clock read as 0 and then as
  500 (the default duration), the call returns with the index at 1; so it does whenever
  the base duration is 0. On a single snapshot with base duration 0 the call returns
  paused, not playing.
\<close>

theorem play_at_end_may_advance:
  "currentStep (play Num 0 500
      (goToStep (Num 2) (setSteps [10::nat, 20, 30] new_controller))) = Num 1
   \<and> currentStep (play Num 0 0
      (goToStep (Num 2) (setSteps [10::nat, 20, 30] (new_controller\<lparr>stepDuration := 0\<rparr>))))
       = Num 1
   \<and> \<not> isPlaying (play Num 0 0 (setSteps [10::nat] (new_controller\<lparr>stepDuration := 0\<rparr>)))"
  by (simp add: setSteps_def goToStep_def play_def reset_def new_controller_def Let_def
      animate_def pause_def getEffectiveDuration_def schedule_def requestAnimationFrame_def
      notifyStepChange_def notifyStateChange_def js_max_def js_min_def)

text \<open>
  C4, amended. With a sequence of length \<open>N \<ge> 1\<close> loaded and the position at \<open>N - 1\<close>,
  \<open>play\<close> first resets the position to 0 (the notifications of that reset are the first
  the call hands out), then sets the controller playing and runs \<open>animate\<close> once before it
  returns. The call reads the clock twice, on entry (\<open>t0\<close>) and in \<open>animate\<close> (\<open>t1\<close>). If
  the test of \<open>animate\<close>, \<open>t1 - t0 >= stepDuration / speed\<close>, fails, the call returns with
  the position at 0, playing and not paused, one new frame callback queued and its handle
  stored. If the test succeeds and \<open>N \<ge> 2\<close>, the call returns the same way, but with the
  position at 1. If the test succeeds and \<open>N = 1\<close>, the run is complete at once: the call
  returns with the position at 0, paused and not playing, no frame callback requested,
  and the completion callback, if there is one, called.
\<close>

theorem play_at_end_restarts:
  assumes "1 \<le> totalSteps s" and "currentStep s = Num (of_int (totalSteps s - 1))"
  shows "(\<exists>rest. delivered (play rnd t0 t1 s) = delivered (reset s) @ rest)
    \<and> currentStep (reset s) = Num 0
    \<and> (\<not> js_le (getEffectiveDuration rnd s) (rnd (t1 - t0)) \<longrightarrow>
          currentStep (play rnd t0 t1 s) = Num 0
          \<and> isPlaying (play rnd t0 t1 s) \<and> \<not> isPaused (play rnd t0 t1 s)
          \<and> animationFrameId (play rnd t0 t1 s) = Some (nextHandle s)
          \<and> frameQueue (play rnd t0 t1 s) = frameQueue s @ [nextHandle s])
    \<and> (js_le (getEffectiveDuration rnd s) (rnd (t1 - t0)) \<and> 2 \<le> totalSteps s \<longrightarrow>
          currentStep (play rnd t0 t1 s) = Num 1
          \<and> isPlaying (play rnd t0 t1 s) \<and> \<not> isPaused (play rnd t0 t1 s)
          \<and> animationFrameId (play rnd t0 t1 s) = Some (nextHandle s)
          \<and> frameQueue (play rnd t0 t1 s) = frameQueue s @ [nextHandle s])
    \<and> (js_le (getEffectiveDuration rnd s) (rnd (t1 - t0)) \<and> totalSteps s = 1 \<longrightarrow>
          currentStep (play rnd t0 t1 s) = Num 0
          \<and> \<not> isPlaying (play rnd t0 t1 s) \<and> isPaused (play rnd t0 t1 s)
          \<and> nextHandle (play rnd t0 t1 s) = nextHandle s
          \<and> (onComplete s \<longrightarrow> Completed \<in> set (delivered (play rnd t0 t1 s))))"
proof -
  let ?due = "js_le (getEffectiveDuration rnd s) (rnd (t1 - t0))"
  let ?s2 = "(reset s)\<lparr>isPlaying := True, isPaused := False, lastFrameTime := t0\<rparr>"
  from assms have at_end: "js_le (Num (of_int (totalSteps s - 1))) (currentStep s)"
    by simp
  then have p: "play rnd t0 t1 s = notifyStateChange (animate rnd t1 ?s2)"
    by (simp add: play_def Let_def)
  have r: "currentStep (reset s) = Num 0" "totalSteps (reset s) = totalSteps s"
    "speed (reset s) = speed s" "stepDuration (reset s) = stepDuration s"
    "nextHandle (reset s) = nextHandle s" "frameQueue (reset s) = frameQueue s"
    "onComplete (reset s) = onComplete s"
    by (simp_all add: reset_def)
  have due: "getEffectiveDuration rnd ?s2 = getEffectiveDuration rnd s"
    by (simp add: getEffectiveDuration_def r)
  have grows: "\<exists>rest. delivered (play rnd t0 t1 s) = delivered (reset s) @ rest"
    unfolding p
    by (simp add: animate_def Let_def due notifyStateChange_def notifyStepChange_def
        deliver_def pause_def cancelAnimationFrame_def split: option.split)
  have idle: "currentStep (play rnd t0 t1 s) = Num 0
          \<and> isPlaying (play rnd t0 t1 s) \<and> \<not> isPaused (play rnd t0 t1 s)
          \<and> animationFrameId (play rnd t0 t1 s) = Some (nextHandle s)
          \<and> frameQueue (play rnd t0 t1 s) = frameQueue s @ [nextHandle s]" if "\<not> ?due"
    unfolding p using that by (simp add: animate_def Let_def due r)
  have advance: "currentStep (play rnd t0 t1 s) = Num 1
          \<and> isPlaying (play rnd t0 t1 s) \<and> \<not> isPaused (play rnd t0 t1 s)
          \<and> animationFrameId (play rnd t0 t1 s) = Some (nextHandle s)
          \<and> frameQueue (play rnd t0 t1 s) = frameQueue s @ [nextHandle s]"
    if "?due" and "2 \<le> totalSteps s"
    unfolding p using that by (simp add: animate_def Let_def due r)
  have complete: "currentStep (play rnd t0 t1 s) = Num 0
          \<and> \<not> isPlaying (play rnd t0 t1 s) \<and> isPaused (play rnd t0 t1 s)
          \<and> nextHandle (play rnd t0 t1 s) = nextHandle s
          \<and> (onComplete s \<longrightarrow> Completed \<in> set (delivered (play rnd t0 t1 s)))"
    if "?due" and "totalSteps s = 1"
    unfolding p using that
    by (simp add: animate_def Let_def due r notifyStateChange_def deliver_def)
  from grows r(1) idle advance complete show ?thesis
    by blast
qed

theorem play_at_end_restarts_witness:
  "currentStep (play Num 0 0 (goToStep (Num 2) (setSteps [10::nat, 20, 30] new_controller)))
     = Num 0
   \<and> isPlaying (play Num 0 0 (goToStep (Num 2) (setSteps [10::nat, 20, 30] new_controller)))
   \<and> frameQueue (play Num 0 0 (goToStep (Num 2) (setSteps [10::nat, 20, 30] new_controller)))
       = [1]
   \<and> currentStep (play Num 0 500
        (goToStep (Num 2) (setSteps [10::nat, 20, 30] new_controller))) = Num 1
   \<and> \<not> isPlaying (play Num 0 500 (setSteps [10::nat] new_controller))"
proof -
  let ?s = "goToStep (Num 2) (setSteps [10::nat, 20, 30] new_controller)"
  let ?u = "setSteps [10::nat] new_controller"
  have s: "1 \<le> totalSteps ?s" "currentStep ?s = Num (of_int (totalSteps ?s - 1))"
    "2 \<le> totalSteps ?s" "frameQueue ?s = []" "nextHandle ?s = 1"
    by (simp_all add: goToStep_def setSteps_def new_controller_def js_max_def js_min_def)
  have u: "1 \<le> totalSteps ?u" "currentStep ?u = Num (of_int (totalSteps ?u - 1))"
    "totalSteps ?u = 1"
    by (simp_all add: setSteps_def)
  have d: "getEffectiveDuration Num ?s = Num 500" "getEffectiveDuration Num ?u = Num 500"
    by (simp_all add: getEffectiveDuration_def goToStep_def setSteps_def new_controller_def)
  have early: "\<not> js_le (getEffectiveDuration Num ?s) (Num (0 - 0))"
    and late: "js_le (getEffectiveDuration Num ?s) (Num (500 - 0))"
      "js_le (getEffectiveDuration Num ?u) (Num (500 - 0))"
    by (simp_all add: d)
  from play_at_end_restarts [OF s(1,2), where rnd = Num and ?t0.0 = 0 and ?t1.0 = 0] early s(4,5)
  have "currentStep (play Num 0 0 ?s) = Num 0 \<and> isPlaying (play Num 0 0 ?s)
      \<and> frameQueue (play Num 0 0 ?s) = [1]"
    by simp
  moreover from play_at_end_restarts [OF s(1,2), where rnd = Num and ?t0.0 = 0 and ?t1.0 = 500] late(1) s(3)
  have "currentStep (play Num 0 500 ?s) = Num 1"
    by simp
  moreover from play_at_end_restarts [OF u(1,2), where rnd = Num and ?t0.0 = 0 and ?t1.0 = 500] late(2) u(3)
  have "\<not> isPlaying (play Num 0 500 ?u)"
    by simp
  ultimately show ?thesis
    by simp
qed

subsection \<open>Progress of a single-snapshot sequence\<close>

lemma nan_only_simps [simp]:
  "nan_only []"
  "nan_only (StepChanged x i n # ns) = nan_only ns"
  "nan_only (Completed # ns) = nan_only ns"
  "nan_only (StateChanged st # ns) = (progress st = NaN \<and> nan_only ns)"
  "nan_only (ns @ ms) = (nan_only ns \<and> nan_only ms)"
  by (auto simp add: nan_only_def)

lemma single_ok_trans: "single_ok a b \<Longrightarrow> single_ok b c \<Longrightarrow> single_ok a c"
  by (auto simp add: single_ok_def)

lemma progress_single:
  "totalSteps s = 1 \<Longrightarrow> currentStep s = Num 0 \<or> currentStep s = NaN \<Longrightarrow> progress_of s = NaN"
  by (auto simp add: progress_of_def)

lemma single_ok_notifyStateChange:
  "single_ok a b \<Longrightarrow> single_ok a (notifyStateChange b)"
  by (auto simp add: single_ok_def notifyStateChange_def deliver_def progress_single)

lemma single_ok_notifyStepChange:
  "single_ok a b \<Longrightarrow> single_ok a (notifyStepChange b)"
  by (auto simp add: single_ok_def notifyStepChange_def deliver_def)

lemma single_ok_pause: "single_ok a b \<Longrightarrow> single_ok a (pause b)"
  unfolding pause_def Let_def
  by (rule single_ok_notifyStateChange)
     (auto simp add: single_ok_def cancelAnimationFrame_def split: option.split)

lemma single_ok_schedule: "single_ok a b \<Longrightarrow> single_ok a (schedule b)"
  by (auto simp add: single_ok_def)

lemma single_ok_animate: "single_ok a b \<Longrightarrow> single_ok a (animate rnd now b)"
proof -
  assume ab: "single_ok a b"
  then have "single_ok a (b\<lparr>lastFrameTime := now\<rparr>)"
    by (simp add: single_ok_def)
  then have "single_ok a (pause (b\<lparr>lastFrameTime := now\<rparr>))"
    by (rule single_ok_pause)
  moreover from this
  have "single_ok a (deliver Completed (pause (b\<lparr>lastFrameTime := now\<rparr>)))"
    by (auto simp add: single_ok_def deliver_def)
  moreover have "\<not> js_lt (currentStep b) (Num (of_int (totalSteps b - 1)))"
    using ab by (auto simp add: single_ok_def)
  ultimately show ?thesis
    using ab by (simp add: animate_def Let_def single_ok_schedule)
qed

lemma single_ok_reset: "single_ok a b \<Longrightarrow> single_ok a (reset b)"
  unfolding reset_def
  by (intro single_ok_notifyStateChange single_ok_notifyStepChange) (simp add: single_ok_def)

lemma single_ok_play: "single_ok a b \<Longrightarrow> single_ok a (play rnd t0 t1 b)"
proof -
  assume ab: "single_ok a b"
  let ?b1 = "if js_le (Num (of_int (totalSteps b - 1))) (currentStep b) then reset b else b"
  from ab have "single_ok a ?b1"
    by (simp add: single_ok_reset)
  then have "single_ok a (?b1\<lparr>isPlaying := True, isPaused := False, lastFrameTime := t0\<rparr>)"
    by (simp add: single_ok_def)
  then have "single_ok a (notifyStateChange (animate rnd t1
      (?b1\<lparr>isPlaying := True, isPaused := False, lastFrameTime := t0\<rparr>)))"
    by (intro single_ok_notifyStateChange single_ok_animate)
  then show ?thesis
    by (simp add: play_def Let_def)
qed

lemma single_ok_apply_call: "single_ok a b \<Longrightarrow> single_ok a (apply_call rnd c b)"
proof (cases c)
  case StepForward
  assume "single_ok a b"
  then show ?thesis by (auto simp add: StepForward stepForward_def single_ok_def)
next
  case StepBackward
  assume "single_ok a b"
  then show ?thesis by (auto simp add: StepBackward stepBackward_def single_ok_def)
next
  case (GoToStep i)
  assume ab: "single_ok a b"
  then have "totalSteps b - 1 \<le> 0"
    by (simp add: single_ok_def)
  from goToStep_at_start [OF this, of i] ab
  have "single_ok a
    (b\<lparr>currentStep := js_max (Num 0) (js_min i (Num (of_int (totalSteps b - 1))))\<rparr>)"
    by (simp add: single_ok_def)
  then show ?thesis
    unfolding GoToStep apply_call.simps goToStep_def
    by (intro single_ok_notifyStateChange single_ok_notifyStepChange)
next
  case (Play t0 t1)
  assume "single_ok a b"
  then show ?thesis by (simp add: Play single_ok_play)
next
  case Pause
  assume "single_ok a b"
  then show ?thesis by (simp add: Pause single_ok_pause)
next
  case (Toggle t0 t1)
  assume "single_ok a b"
  then show ?thesis by (simp add: Toggle toggle_def single_ok_play single_ok_pause)
next
  case (SetSpeed x)
  assume "single_ok a b"
  then have "single_ok a (b\<lparr>speed := js_max (Num 0.25) (js_min (Num 4) x)\<rparr>)"
    by (simp add: single_ok_def)
  then show ?thesis
    unfolding SetSpeed apply_call.simps setSpeed_def by (rule single_ok_notifyStateChange)
next
  case Reset
  assume "single_ok a b"
  then show ?thesis by (simp add: Reset single_ok_reset)
next
  case Stop
  assume "single_ok a b"
  then have "single_ok a (pause b)"
    by (rule single_ok_pause)
  then have "single_ok a ((pause b)\<lparr>currentStep := Num 0\<rparr>)"
    by (simp add: single_ok_def)
  then show ?thesis
    unfolding Stop apply_call.simps stop_def
    by (intro single_ok_notifyStateChange single_ok_notifyStepChange)
next
  case (Frame h now)
  assume ab: "single_ok a b"
  then have "single_ok a (b\<lparr>frameQueue := removeAll h (frameQueue b)\<rparr>)"
    by (simp add: single_ok_def)
  then have "single_ok a (animate rnd now (b\<lparr>frameQueue := removeAll h (frameQueue b)\<rparr>))"
    by (rule single_ok_animate)
  with ab show ?thesis
    by (simp add: Frame frame_def)
qed

lemma single_ok_run: "single_ok a b \<Longrightarrow> single_ok a (run rnd cs b)"
  by (induction cs arbitrary: b) (simp_all add: single_ok_apply_call)

lemma single_ok_setSteps: "single_ok s (setSteps [x] s)"
proof -
  let ?s = "s\<lparr>steps := [x], totalSteps := int (length [x]), currentStep := Num 0\<rparr>"
  have "totalSteps ?s = 1" "currentStep ?s = Num 0" "delivered ?s = delivered s"
    by simp_all
  then have "single_ok s ?s"
    by (simp add: single_ok_def)
  then show ?thesis
    unfolding setSteps_def by (rule single_ok_notifyStateChange)
qed

text \<open>
  C10. Load a sequence of exactly one snapshot into a controller in any state and let
  anything happen to it, with any arguments. Every status notification handed out from the
  load on carries \<open>progress = NaN\<close>: the guard \<open>totalSteps > 0\<close> holds, the position is 0
  (or \<open>NaN\<close>, after \<open>goToStep(NaN)\<close>) and the divisor \<open>totalSteps - 1\<close> is 0, so the
  expression is \<open>(0 / 0) * 100\<close>. The guard only catches the empty sequence, where the
  progress is 0.
\<close>

theorem single_snapshot_progress_is_NaN:
  "(\<exists>new. delivered (run rnd cs (setSteps [x] s)) = delivered s @ new
          \<and> (\<forall>st. StateChanged st \<in> set new \<longrightarrow> progress st = NaN))
   \<and> progress_of (run rnd cs (setSteps [x] s)) = NaN
   \<and> progress_of (setSteps [] s) = Num 0"
proof -
  have ok: "single_ok s (run rnd cs (setSteps [x] s))"
    by (rule single_ok_run) (rule single_ok_setSteps)
  then have "progress_of (run rnd cs (setSteps [x] s)) = NaN"
    by (simp add: single_ok_def progress_single del: run_totalSteps)
  moreover have "progress_of (setSteps [] s) = Num 0"
    by (simp add: progress_of_def setSteps_def)
  ultimately show ?thesis
    using ok unfolding single_ok_def nan_only_def by blast
qed

theorem single_snapshot_progress_is_NaN_witness:
  "delivered (run Num [GoToStep (Num 5)]
      (setSteps [10::nat] (new_controller\<lparr>onStateChange := True\<rparr>)))
     = [StateChanged (Status False False (Num 0) 1 (Num 1) NaN),
        StateChanged (Status False False (Num 0) 1 (Num 1) NaN)]
   \<and> progress (Status False False (Num 0) 1 (Num 1) NaN) = NaN"
proof -
  let ?s = "(new_controller :: nat controller)\<lparr>onStateChange := True\<rparr>"
  have d: "delivered (run Num [GoToStep (Num 5)] (setSteps [10::nat] ?s))
     = [StateChanged (Status False False (Num 0) 1 (Num 1) NaN),
        StateChanged (Status False False (Num 0) 1 (Num 1) NaN)]"
    by (simp add: setSteps_def goToStep_def new_controller_def notifyStateChange_def
        notifyStepChange_def deliver_def progress_of_def js_max_def js_min_def)
  from single_snapshot_progress_is_NaN [of Num "[GoToStep (Num 5)]" "10::nat" ?s]
  obtain new
    where n: "delivered (run Num [GoToStep (Num 5)] (setSteps [10::nat] ?s)) = delivered ?s @ new"
    and a: "\<forall>st. StateChanged st \<in> set new \<longrightarrow> progress st = NaN"
    by blast
  have "delivered ?s = []"
    by (simp add: new_controller_def)
  with n d have "StateChanged (Status False False (Num 0) 1 (Num 1) NaN) \<in> set new"
    by simp
  with a have "progress (Status False False (Num 0) 1 (Num 1) NaN) = NaN"
    by blast
  with d show ?thesis
    by blast
qed

section \<open>Properties of the step producers\<close>

subsection \<open>KMP: both loops return\<close>

text \<open>
  \<open>buildLPS_loop\<close> returns whenever it is entered the way \<open>buildLPS\<close> enters it and
  re-enters it: the array has \<open>i\<close> entries, entry \<open>k\<close> is at most \<open>k\<close>, and \<open>len < i\<close>. Each
  round either advances \<open>i\<close> or lowers \<open>len\<close>, so \<open>2 * (m - i) + len\<close> decreases. The same
  argument, with \<open>j\<close> in the place of \<open>len\<close>, makes \<open>search_loop\<close> return.
\<close>

lemma buildLPS_loop_returns:
  assumes "length l = i" and "len < i" and "\<forall>k<i. l ! k \<le> k" and "i \<le> length p"
  shows "\<exists>r. buildLPS_loop p l len i = Some r \<and> length r = length p
           \<and> (\<forall>k<length p. r ! k \<le> k)"
  using assms
proof (induction "2 * (length p - i) + len" arbitrary: l len i rule: less_induct)
  case less
  show ?case
  proof (cases "i < length p")
    case False
    with less.prems show ?thesis
      by (subst buildLPS_loop.simps) simp
  next
    case inside: True
    show ?thesis
    proof (cases "js_index p i = js_index p len")
      case True
      have "\<exists>r. buildLPS_loop p (l @ [len + 1]) (len + 1) (i + 1) = Some r
              \<and> length r = length p \<and> (\<forall>k<length p. r ! k \<le> k)"
      proof (rule less.hyps)
        show "2 * (length p - (i + 1)) + (len + 1) < 2 * (length p - i) + len"
          using inside by simp
        show "\<forall>k<i + 1. (l @ [len + 1]) ! k \<le> k"
          using less.prems by (auto simp add: nth_append)
      qed (use less.prems inside in simp_all)
      with True inside less.prems show ?thesis
        by (subst buildLPS_loop.simps) (simp add: js_store_def)
    next
      case differ: False
      show ?thesis
      proof (cases "len = 0")
        case True
        have "\<exists>r. buildLPS_loop p (l @ [0]) len (i + 1) = Some r
              \<and> length r = length p \<and> (\<forall>k<length p. r ! k \<le> k)"
        proof (rule less.hyps)
          show "2 * (length p - (i + 1)) + len < 2 * (length p - i) + len"
            using inside by simp
          show "\<forall>k<i + 1. (l @ [0]) ! k \<le> k"
            using less.prems by (auto simp add: nth_append)
        qed (use less.prems inside in simp_all)
        with True differ inside less.prems show ?thesis
          by (subst buildLPS_loop.simps) (simp add: js_store_def)
      next
        case False
        then have "len - 1 < i"
          using less.prems by simp
        with less.prems have "l ! (len - 1) \<le> len - 1"
          by blast
        with False have fallback: "l ! (len - 1) < len"
          by simp
        have "\<exists>r. buildLPS_loop p l (l ! (len - 1)) i = Some r
              \<and> length r = length p \<and> (\<forall>k<length p. r ! k \<le> k)"
        proof (rule less.hyps)
          show "2 * (length p - i) + l ! (len - 1) < 2 * (length p - i) + len"
            using fallback by simp
          show "l ! (len - 1) < i"
            using fallback less.prems by simp
        qed (use less.prems in simp_all)
        with False differ inside less.prems show ?thesis
          by (subst buildLPS_loop.simps) (simp add: js_index_def)
      qed
    qed
  qed
qed

lemma ends_complete_grow: "ends_complete (sts @ xs) r \<Longrightarrow> ends_complete sts r"
  by (auto simp add: ends_complete_def)

lemma search_loop_done:
  "\<not> i < length t \<Longrightarrow> ends_complete sts (search_loop t p l i j ms sts)"
  by (subst search_loop.simps) (simp add: ends_complete_def)

lemma search_loop_found:
  assumes "i < length t" and "js_index t i = js_index p j" and "length p = j + 1"
    and "js_index l j = Some j'"
  shows "\<exists>ms' new. search_loop t p l i j ms sts = search_loop t p l (i + 1) j' ms' (sts @ new)"
  apply (insert assms)
  apply (subst search_loop.simps)
  apply (simp add: Let_def)
  apply (intro exI)
  apply (rule refl)
  done

lemma search_loop_advance:
  assumes "i < length t" and "js_index t i = js_index p j" and "j + 1 \<noteq> length p"
  shows "\<exists>new. search_loop t p l i j ms sts = search_loop t p l (i + 1) (j + 1) ms (sts @ new)"
  apply (insert assms)
  apply (subst search_loop.simps)
  apply (simp add: Let_def)
  apply (intro exI)
  apply (rule refl)
  done

lemma search_loop_jump:
  assumes "i < length t" and "js_index t i \<noteq> js_index p j" and "j \<noteq> 0"
    and "js_index l (j - 1) = Some j'"
  shows "\<exists>new. search_loop t p l i j ms sts = search_loop t p l i j' ms (sts @ new)"
  apply (insert assms)
  apply (subst search_loop.simps)
  apply (simp add: Let_def)
  apply (intro exI)
  apply (rule refl)
  done

lemma search_loop_slide:
  assumes "i < length t" and "js_index t i \<noteq> js_index p j" and "j = 0"
  shows "\<exists>new. search_loop t p l i j ms sts = search_loop t p l (i + 1) j ms (sts @ new)"
  apply (insert assms)
  apply (subst search_loop.simps)
  apply (simp add: Let_def)
  apply (intro exI)
  apply (rule refl)
  done

lemma search_loop_returns:
  assumes "length l = length p" and "\<forall>k<length p. l ! k \<le> k" and "j < length p"
  shows "ends_complete sts (search_loop t p l i j ms sts)"
  using assms
proof (induction "2 * (length t - i) + j" arbitrary: i j ms sts rule: less_induct)
  case less
  have next_round: "ends_complete sts (search_loop t p l i' j' ms' (sts @ new))"
    if "2 * (length t - i') + j' < 2 * (length t - i) + j" and "j' < length p"
    for i' j' ms' new
    using less.hyps [OF that(1) less.prems(1,2) that(2)] by (rule ends_complete_grow)
  show ?case
  proof (cases "i < length t")
    case False
    then show ?thesis
      by (rule search_loop_done)
  next
    case inside: True
    show ?thesis
    proof (cases "js_index t i = js_index p j")
      case same: True
      show ?thesis
      proof (cases "j + 1 = length p")
        case True
        from less.prems have small: "l ! j \<le> j" and "js_index l j = Some (l ! j)"
          by (simp_all add: js_index_def)
        with search_loop_found [OF inside same True [symmetric]]
        obtain ms' new where
          "search_loop t p l i j ms sts = search_loop t p l (i + 1) (l ! j) ms' (sts @ new)"
          by blast
        moreover from inside small have "2 * (length t - (i + 1)) + l ! j < 2 * (length t - i) + j"
          by simp
        moreover from small less.prems(3) have "l ! j < length p"
          by simp
        ultimately show ?thesis
          by (simp add: next_round)
      next
        case False
        from search_loop_advance [OF inside same False]
        obtain new where
          "search_loop t p l i j ms sts = search_loop t p l (i + 1) (j + 1) ms (sts @ new)"
          by blast
        moreover from False less.prems have "j + 1 < length p"
          by simp
        moreover from inside have "2 * (length t - (i + 1)) + (j + 1) < 2 * (length t - i) + j"
          by simp
        ultimately show ?thesis
          by (simp add: next_round)
      qed
    next
      case differ: False
      show ?thesis
      proof (cases "j = 0")
        case True
        from search_loop_slide [OF inside differ True]
        obtain new where
          "search_loop t p l i j ms sts = search_loop t p l (i + 1) j ms (sts @ new)"
          by blast
        moreover from inside have "2 * (length t - (i + 1)) + j < 2 * (length t - i) + j"
          by simp
        ultimately show ?thesis
          using less.prems by (simp add: next_round)
      next
        case False
        with less.prems have "j - 1 < length p"
          by simp
        with less.prems have small: "l ! (j - 1) \<le> j - 1"
          and "js_index l (j - 1) = Some (l ! (j - 1))"
          by (simp_all add: js_index_def)
        with search_loop_jump [OF inside differ False]
        obtain new where
          "search_loop t p l i j ms sts = search_loop t p l i (l ! (j - 1)) ms (sts @ new)"
          by blast
        moreover from small False have "2 * (length t - i) + l ! (j - 1) < 2 * (length t - i) + j"
          by simp
        moreover from small False less.prems(3) have "l ! (j - 1) < length p"
          by simp
        ultimately show ?thesis
          by (simp add: next_round)
      qed
    qed
  qed
qed

lemma buildLPS_returns:
  assumes "p \<noteq> []"
  shows "\<exists>l. buildLPS p = Some l \<and> length l = length p \<and> (\<forall>k<length p. l ! k \<le> k)"
  unfolding buildLPS_def using assms
  by (intro buildLPS_loop_returns) (simp_all add: Suc_le_eq)

lemma search_returns:
  "\<exists>ms sts. search t p = Some (ms, sts)
     \<and> (sts = []) = (t = [] \<or> p = [])
     \<and> (t = [] \<or> p = [] \<longrightarrow> ms = [])
     \<and> (t \<noteq> [] \<and> p \<noteq> [] \<longrightarrow> 2 \<le> length sts \<and> kmp_complete (last sts))"
proof (cases "t = [] \<or> p = []")
  case True
  then show ?thesis
    by (auto simp add: search_def)
next
  case False
  then obtain l where l: "buildLPS p = Some l" "length l = length p" "\<forall>k<length p. l ! k \<le> k"
    using buildLPS_returns by blast
  let ?first = "(kmp_snapshot t p 0 0 l [])
                 \<lparr> kmp_comparing := Some [],
                   kmp_description := ''Built LPS array: ['' @ join '', '' (map show_nat l) @ '']'' \<rparr>"
  from False l have "ends_complete [?first] (search_loop t p l 0 0 [] [?first])"
    by (intro search_loop_returns) simp_all
  then obtain ms new where "search_loop t p l 0 0 [] [?first] = Some (ms, [?first] @ new)"
    and "new \<noteq> []" and "kmp_complete (last new)"
    unfolding ends_complete_def by blast
  with False l show ?thesis
    by (cases new) (simp_all add: search_def)
qed


subsection \<open>Tower of Hanoi: the number of snapshots\<close>

lemma replay_length: "length (replay ms index pegs sts) = length sts + length ms"
  by (induction ms arbitrary: index pegs sts) (simp_all add: Let_def split: prod.split)

lemma recordMoves_length:
  "length (recordMoves n source target auxiliary moves) = length moves + (2 ^ n - 1)"
proof (induction n arbitrary: source target auxiliary moves)
  case 0
  show ?case by simp
next
  case (Suc n)
  have "(1::nat) \<le> 2 ^ n"
    by simp
  then show ?case
    by (simp add: Suc)
qed

lemma TowerOfHanoi_generateStates_length:
  "length (TowerOfHanoi_generateStates numDisks) = 1 + getMinMoves numDisks"
  by (simp add: TowerOfHanoi_generateStates_def replay_length recordMoves_length getMinMoves_def)


subsection \<open>N-Queens: snapshots are only ever added\<close>

lemma checked_length: "length (states (checked n row col s)) = length (states s) + 1"
  by (simp add: checked_def split: prod.split)

lemma placed_length: "length (states (placed n row col s)) = length (states s) + 2"
  by (simp add: placed_def Let_def checked_length split: prod.split)

lemma backtracked_length: "length (states (backtracked n row col s s3)) = length (states s3) + 1"
  by (simp add: backtracked_def Let_def split: prod.split)

lemma record_solution_length: "length (states (record_solution n s)) = length (states s) + 1"
  by (simp add: record_solution_def Let_def split: prod.split)

lemma solve_grows:
  "length (states s) \<le> length (states (snd (solve n findFirst row s)))"
  "length (states s) \<le> length (states (snd (try_cols n findFirst row col s)))"
proof (induction n findFirst row s and n findFirst row col s rule: solve_try_cols.induct)
  case (1 n findFirst row s)
  then show ?case
    by (subst solve.simps) (simp add: record_solution_length)
next
  case (2 n findFirst row col s)
  consider (finished) "\<not> col < n"
    | (unsafe) "col < n" "\<not> fst (conflicts_at row col s)"
    | (safe) "col < n" "fst (conflicts_at row col s)"
    by blast
  then show ?case
  proof cases
    case finished
    then show ?thesis
      by (subst try_cols.simps) simp
  next
    case unsafe
    from "2.IH"(3) [OF unsafe]
    have "length (states (checked n row col s))
      \<le> length (states (snd (try_cols n findFirst row (col + 1) (checked n row col s))))" .
    with unsafe show ?thesis
      by (subst try_cols.simps) (simp add: checked_length)
  next
    case safe
    obtain found s3 where sv: "solve n findFirst (row + 1) (placed n row col s) = (found, s3)"
      by force
    from "2.IH"(1) [OF safe] sv have s3: "length (states s) + 2 \<le> length (states s3)"
      by (simp add: placed_length)
    show ?thesis
    proof (cases found)
      case True
      with safe sv s3 show ?thesis
        by (subst try_cols.simps) simp
    next
      case False
      from "2.IH"(2) [OF safe sv [symmetric] False]
      have "length (states (backtracked n row col s s3))
        \<le> length (states (snd (try_cols n findFirst row (col + 1)
              (backtracked n row col s s3))))" .
      with safe sv s3 False show ?thesis
        by (subst try_cols.simps) (simp add: backtracked_length)
    qed
  qed
qed

lemma NQueens_generateStates_length: "1 \<le> length (NQueens_generateStates n findFirst)"
  unfolding NQueens_generateStates_def
  by (rule order_trans [OF _ solve_grows(1)]) simp


subsection \<open>Snapshot sequences of completed runs\<close>




subsection \<open>End-to-end scenarios\<close>

text \<open>
  C7. \<open>search\<close> with text \<open>ABABDABACDABABCABAB\<close> and pattern \<open>ABABCABAB\<close> returns
  exactly one match, at index 10; exactly one snapshot carries a \<open>matchFound\<close>, which is
  10, and the last snapshot says that one match was found.
\<close>

theorem kmp_scenario:
  "map_option fst (search ''ABABDABACDABABCABAB'' ''ABABCABAB'') = Some [10]
   \<and> map_option (\<lambda>r. List.map_filter kmp_matchFound (snd r))
        (search ''ABABDABACDABABCABAB'' ''ABABCABAB'') = Some [10]
   \<and> map_option (\<lambda>r. kmp_description (last (snd r)))
        (search ''ABABDABACDABABCABAB'' ''ABABCABAB'')
       = Some ''Search complete. Found 1 match(es)''"
  by code_simp

text \<open>
  C8. \<open>generateStates\<close> for 3 disks returns 8 snapshots: the initial one, which has no
  move, and the 7 = \<open>2 ^ 3 - 1\<close> moves, numbered 1 to 7. The last snapshot is the move of
  disk 1 from peg 1 to peg 3 (the target peg), after which all three disks are on that
  peg.
\<close>

theorem hanoi_three_disks:
  "length (TowerOfHanoi_generateStates 3) = 8
   \<and> length (TowerOfHanoi_generateStates 3) = 1 + getMinMoves 3
   \<and> getMinMoves 3 = 2 ^ 3 - 1
   \<and> h_move (hd (TowerOfHanoi_generateStates 3)) = None
   \<and> map h_moveNumber (tl (TowerOfHanoi_generateStates 3)) = [1, 2, 3, 4, 5, 6, 7]
   \<and> h_move (last (TowerOfHanoi_generateStates 3)) = Some (Move 1 0 2)
   \<and> h_description (last (TowerOfHanoi_generateStates 3)) = ''Move disk 1 from Peg 1 to Peg 3''
   \<and> h_pegs (last (TowerOfHanoi_generateStates 3)) = [[], [], [Some 3, Some 2, Some 1]]"
  by code_simp


text \<open>
  C9. \<open>generateStates(true)\<close> for \<open>n = 4\<close> returns 40 snapshots. The first 39 are not
  solution snapshots and report \<open>solutionsFound = 0\<close>; the last one is the only solution
  snapshot and reports \<open>solutionsFound = 1\<close>, with the queens in columns 2, 4, 1, 3. The
  search ends there, although there are two solutions: \<open>generateStates(false)\<close> records
  both.
\<close>

theorem four_queens_first_solution:
  "map nq_isSolution (NQueens_generateStates 4 True) = replicate 39 False @ [True]
   \<and> map nq_solutionsFound (NQueens_generateStates 4 True) = replicate 39 0 @ [1]
   \<and> length (filter nq_isSolution (NQueens_generateStates 4 True)) = 1
   \<and> nq_queens (last (NQueens_generateStates 4 True)) = [(0, 1), (1, 3), (2, 0), (3, 2)]
   \<and> length (filter nq_isSolution (NQueens_generateStates 4 False)) = 2"
  by code_simp


end
